theory Spec2Isabelle
  imports Complex_Main
begin

section \<open>Data model\<close>

text \<open>
  Prices, indicator values and confidences are Python floats in the source; they are
  modelled as \<^typ>\<open>real\<close>.  The arithmetic on them is read as exact, except in the
  definitions of the signal generator that carry a rounding function; infinities and
  not-a-number are outside the model.  Scores are Python integers and are modelled as
  \<^typ>\<open>int\<close>.
\<close>

datatype py_error = IndexError | ZeroDivisionError | LibraryError

text \<open>
  The constants imported from \<^verbatim>\<open>config\<close>.  The module is not part of the sources, so
  the values are a parameter of every function that reads them.
\<close>

record config =
  ENABLE_AVERAGING :: bool
  AVERAGING_DISTANCE :: real
  ATR_MULTIPLIER_SL :: real
  ATR_MULTIPLIER_TP1 :: real
  ATR_MULTIPLIER_TP2 :: real
  ATR_MULTIPLIER_TP3 :: real
  MIN_CONFIDENCE :: real
  MIN_ADX :: real
  POSITION_SIZE_A :: real
  POSITION_SIZE_B :: real

text \<open>
  One row of the frame returned by \<^verbatim>\<open>add_all_indicators\<close>, restricted to the columns
  that \<^verbatim>\<open>get_signal_strength\<close>, \<^verbatim>\<open>MLPredictor.FEATURES\<close> and \<^verbatim>\<open>generate\<close> read.
  \<^verbatim>\<open>add_all_indicators\<close> ends with \<^verbatim>\<open>dropna\<close>, so no field of a row is missing.
\<close>

record row =
  bar_open :: real
  bar_close :: real
  rsi :: real
  macd :: real
  macd_signal :: real
  macd_histogram :: real
  sma_20 :: real
  sma_50 :: real
  bb_lower :: real
  bb_upper :: real
  bb_pband :: real
  stoch_k :: real
  stoch_d :: real
  adx :: real
  atr :: real
  atr_percent :: real
  volume_ratio :: real

datatype side = LONG | SHORT

record signal =
  symbol :: string
  side :: side
  entry_a :: real
  entry_b :: "real option"
  stop :: real
  tp1 :: real
  tp2 :: real
  tp3 :: real
  confidence :: real

section \<open>technical_analysis.py: get_signal_strength\<close>

record strength =
  bullish_score :: int
  bearish_score :: int
  trend_strength :: real
  net_score :: int
  ta_confidence :: real

text \<open>Each block of the scoring returns the points it adds as (bullish, bearish).\<close>

definition rsi_points :: "row \<Rightarrow> int \<times> int" where
  "rsi_points l =
     (if rsi l < 30 then (2, 0)
      else if rsi l > 70 then (0, 2)
      else if rsi l < 45 then (1, 0)
      else if rsi l > 55 then (0, 1)
      else (0, 0))"

definition macd_points :: "row \<Rightarrow> row \<Rightarrow> int \<times> int" where
  "macd_points l p =
     (if macd l > macd_signal l \<and> macd p \<le> macd_signal p then (2, 0)
      else if macd l < macd_signal l \<and> macd p \<ge> macd_signal p then (0, 2)
      else if macd l > macd_signal l then (1, 0)
      else (0, 1))"

definition ma_points :: "row \<Rightarrow> int \<times> int" where
  "ma_points l =
     (if bar_close l > sma_20 l \<and> sma_20 l > sma_50 l then (2, 0)
      else if bar_close l < sma_20 l \<and> sma_20 l < sma_50 l then (0, 2)
      else (0, 0))"

definition bb_points :: "row \<Rightarrow> int \<times> int" where
  "bb_points l =
     (if bar_close l < bb_lower l then (2, 0)
      else if bar_close l > bb_upper l then (0, 2)
      else (0, 0))"

definition stoch_points :: "row \<Rightarrow> int \<times> int" where
  "stoch_points l =
     (if stoch_k l < 20 \<and> stoch_k l > stoch_d l then (1, 0)
      else if stoch_k l > 80 \<and> stoch_k l < stoch_d l then (0, 1)
      else (0, 0))"

definition volume_points :: "row \<Rightarrow> int \<times> int" where
  "volume_points l =
     (if volume_ratio l > 1.5
      then (if bar_close l > bar_open l then (1, 0) else (0, 1))
      else (0, 0))"

definition bullish_signals :: "row \<Rightarrow> row \<Rightarrow> int" where
  "bullish_signals l p =
     fst (rsi_points l) + fst (macd_points l p) + fst (ma_points l) + fst (bb_points l)
       + fst (stoch_points l) + fst (volume_points l)"

definition bearish_signals :: "row \<Rightarrow> row \<Rightarrow> int" where
  "bearish_signals l p =
     snd (rsi_points l) + snd (macd_points l p) + snd (ma_points l) + snd (bb_points l)
       + snd (stoch_points l) + snd (volume_points l)"

text \<open>
  \<^verbatim>\<open>df.iloc[-1]\<close> and \<^verbatim>\<open>df.iloc[-2]\<close> raise IndexError on a frame with fewer than two
  rows.  The \<^verbatim>\<open>np.isnan\<close> fallback of \<^verbatim>\<open>trend_strength\<close> cannot fire on a row without
  missing values.
\<close>

definition get_signal_strength :: "row list \<Rightarrow> py_error + strength" where
  "get_signal_strength df =
     (if length df < 2 then Inl IndexError
      else
        let l = last df;
            p = df ! (length df - 2);
            bull = bullish_signals l p;
            bear = bearish_signals l p;
            total_signals = bull + bear
        in Inr \<lparr> bullish_score = bull,
                 bearish_score = bear,
                 trend_strength = adx l,
                 net_score = bull - bear,
                 ta_confidence = real_of_int \<bar>bull - bear\<bar> / real_of_int (max total_signals 1) \<rparr>)"

section \<open>ml_predictor.py: MLPredictor\<close>

text \<open>
  The random forest is a library object.  A fitted classifier is modelled by its
  \<^verbatim>\<open>classes_\<close> and its \<^verbatim>\<open>predict_proba\<close> on one feature row (\<open>None\<close>: the call raises).
  Fitting and scoring are parameters: \<open>fit\<close> stands for \<^verbatim>\<open>train_test_split\<close> followed
  by \<^verbatim>\<open>model.fit\<close>, \<open>score\<close> for \<^verbatim>\<open>model.score\<close> on the test part.
\<close>

record classifier =
  classes :: "int list"
  predict_proba :: "row \<Rightarrow> real list option"

record sklearn =
  fit :: "row list \<Rightarrow> classifier option"
  score :: "classifier \<Rightarrow> row list \<Rightarrow> real option"

record ml_predictor =
  model :: classifier
  trained :: bool

record prediction =
  direction :: int
  ml_confidence :: real

text \<open>
  All feature columns exist in a \<^typ>\<open>row\<close>, so the missing-feature branches are not
  reachable.  A frame with fewer than 50 rows is not fitted and reports accuracy 0.
\<close>

definition train_on_historical ::
  "sklearn \<Rightarrow> ml_predictor \<Rightarrow> row list \<Rightarrow> (py_error + real) \<times> ml_predictor" where
  "train_on_historical sk ml df =
     (if length df < 50 then (Inr 0, ml)
      else
        (case fit sk df of
           None \<Rightarrow> (Inl LibraryError, ml)
         | Some clf \<Rightarrow>
             let ml' = ml \<lparr> model := clf, trained := True \<rparr>
             in (case score sk clf df of
                   None \<Rightarrow> (Inl LibraryError, ml')
                 | Some accuracy \<Rightarrow> (Inr accuracy, ml'))))"

text \<open>\<^verbatim>\<open>np.where(classes == c)[0]\<close>: the positions of \<open>c\<close>; only the first one is read.\<close>

fun index_of :: "int \<Rightarrow> int list \<Rightarrow> nat option" where
  "index_of c [] = None"
| "index_of c (x # xs) =
     (if x = c then Some 0 else map_option Suc (index_of c xs))"

definition neutral :: prediction where
  "neutral = \<lparr> direction = 0, ml_confidence = 0 \<rparr>"

text \<open>
  The body of the \<^verbatim>\<open>try\<close> block of \<^verbatim>\<open>predict\<close>.  Every exception in it (a raising
  \<^verbatim>\<open>predict_proba\<close>, an index beyond \<^verbatim>\<open>proba\<close>) is caught and gives the neutral result.
\<close>

definition predict_fitted :: "classifier \<Rightarrow> row list \<Rightarrow> prediction" where
  "predict_fitted clf df =
     (if df = [] then neutral
      else
        (case predict_proba clf (last df) of
           None \<Rightarrow> neutral
         | Some proba \<Rightarrow>
             if length proba \<ge> 2 then
               (case (index_of 1 (classes clf), index_of (- 1) (classes clf)) of
                  (Some il, Some is) \<Rightarrow>
                    if il < length proba \<and> is < length proba then
                      let prob_long = proba ! il; prob_short = proba ! is
                      in \<lparr> direction = (if prob_long > prob_short then 1 else - 1),
                           ml_confidence = max prob_long prob_short \<rparr>
                    else neutral
                | _ \<Rightarrow>
                    let prob_long = proba ! 1; prob_short = proba ! 0
                    in \<lparr> direction = (if prob_long > prob_short then 1 else - 1),
                         ml_confidence = max prob_long prob_short \<rparr>)
             else neutral))"

definition predict ::
  "sklearn \<Rightarrow> ml_predictor \<Rightarrow> row list \<Rightarrow> (py_error + prediction) \<times> ml_predictor" where
  "predict sk ml df =
     (if \<not> trained ml then
        (case train_on_historical sk ml df of
           (Inl e, ml') \<Rightarrow> (Inl e, ml')
         | (Inr accuracy, ml') \<Rightarrow>
             if accuracy = 0 then (Inr neutral, ml')
             else (Inr (predict_fitted (model ml') df), ml'))
      else (Inr (predict_fitted (model ml) df), ml))"

section \<open>signal_generator.py: SignalGenerator.generate\<close>

text \<open>
  Step 7 of \<^verbatim>\<open>generate\<close>: the side and the levels, from the predicted direction \<open>d\<close>,
  the last close and the last ATR.
\<close>

definition build_signal :: "config \<Rightarrow> string \<Rightarrow> int \<Rightarrow> real \<Rightarrow> real \<Rightarrow> real \<Rightarrow> signal" where
  "build_signal cfg smb d price a combined_conf =
     (let sd = (if d = 1 then LONG else SHORT);
          sl_dist = a * ATR_MULTIPLIER_SL cfg;
          tp1_dist = a * ATR_MULTIPLIER_TP1 cfg;
          tp2_dist = a * ATR_MULTIPLIER_TP2 cfg;
          tp3_dist = a * ATR_MULTIPLIER_TP3 cfg
      in if sd = LONG then
           \<lparr> symbol = smb, side = sd, entry_a = price,
             entry_b = (if ENABLE_AVERAGING cfg
                        then Some (price * (1 - AVERAGING_DISTANCE cfg)) else None),
             stop = price - sl_dist,
             tp1 = price + tp1_dist,
             tp2 = price + tp2_dist,
             tp3 = price + tp3_dist,
             confidence = combined_conf \<rparr>
         else
           \<lparr> symbol = smb, side = sd, entry_a = price,
             entry_b = (if ENABLE_AVERAGING cfg
                        then Some (price * (1 + AVERAGING_DISTANCE cfg)) else None),
             stop = price + sl_dist,
             tp1 = price - tp1_dist,
             tp2 = price - tp2_dist,
             tp3 = price - tp3_dist,
             confidence = combined_conf \<rparr>)"

text \<open>
  \<open>add_all_indicators\<close> is the indicator library applied to the raw frame (\<open>None\<close>: it
  raises).  Every exception inside \<^verbatim>\<open>generate\<close> is caught and gives \<open>None\<close>.  The
  predictor object is mutated by a first-use fit, so it is returned with the result.
\<close>

definition generate ::
  "config \<Rightarrow> ('df \<Rightarrow> row list option) \<Rightarrow> sklearn \<Rightarrow> ml_predictor \<Rightarrow> 'df \<Rightarrow> string
     \<Rightarrow> signal option \<times> ml_predictor" where
  "generate cfg add_all_indicators sk ml df0 smb =
     (case add_all_indicators df0 of
        None \<Rightarrow> (None, ml)
      | Some df \<Rightarrow>
          if length df < 10 then (None, ml)
          else
            (case get_signal_strength df of
               Inl e \<Rightarrow> (None, ml)
             | Inr strength \<Rightarrow>
                 (case predict sk ml df of
                    (Inl e, ml') \<Rightarrow> (None, ml')
                  | (Inr ml_pred, ml') \<Rightarrow>
                      let combined_conf = (ta_confidence strength + ml_confidence ml_pred) / 2
                      in if combined_conf < MIN_CONFIDENCE cfg then (None, ml')
                         else
                           let current_adx = adx (last df)
                           in if current_adx < MIN_ADX cfg then (None, ml')
                              else
                                let d = direction ml_pred; ns = net_score strength
                                in if (d = 1 \<and> ns \<le> 0) \<or> (d = - 1 \<and> ns \<ge> 0) then (None, ml')
                                   else
                                     (Some (build_signal cfg smb d (bar_close (last df))
                                              (atr (last df)) combined_conf), ml'))))"

subsection \<open>The generator with rounded arithmetic\<close>

text \<open>
  In the program every \<^verbatim>\<open>+\<close>, \<^verbatim>\<open>-\<close>, \<^verbatim>\<open>*\<close> and \<^verbatim>\<open>/\<close> on floats returns the binary64 value
  nearest to the exact result.  The following versions of the scorer, of step 7 and of
  \<^verbatim>\<open>generate\<close> carry that rounding as a parameter \<open>fl\<close>, applied to the result of every
  such operation in the order of the source: the quotient of the scorer's confidence,
  the sum and the half of the combined confidence, the four distances, the levels, and
  the factor and the product of the averaging entry.  Comparisons, \<^verbatim>\<open>max\<close> and the integer
  arithmetic of the scores are exact.  With the identity for \<open>fl\<close> these are the
  definitions above.
\<close>

definition get_signal_strength_fl :: "(real \<Rightarrow> real) \<Rightarrow> row list \<Rightarrow> py_error + strength" where
  "get_signal_strength_fl fl df =
     (if length df < 2 then Inl IndexError
      else
        let l = last df;
            p = df ! (length df - 2);
            bull = bullish_signals l p;
            bear = bearish_signals l p;
            total_signals = bull + bear
        in Inr \<lparr> bullish_score = bull,
                 bearish_score = bear,
                 trend_strength = adx l,
                 net_score = bull - bear,
                 ta_confidence =
                   fl (real_of_int \<bar>bull - bear\<bar> / real_of_int (max total_signals 1)) \<rparr>)"

definition build_signal_fl ::
  "(real \<Rightarrow> real) \<Rightarrow> config \<Rightarrow> string \<Rightarrow> int \<Rightarrow> real \<Rightarrow> real \<Rightarrow> real \<Rightarrow> signal" where
  "build_signal_fl fl cfg smb d price a combined_conf =
     (let sd = (if d = 1 then LONG else SHORT);
          sl_dist = fl (a * ATR_MULTIPLIER_SL cfg);
          tp1_dist = fl (a * ATR_MULTIPLIER_TP1 cfg);
          tp2_dist = fl (a * ATR_MULTIPLIER_TP2 cfg);
          tp3_dist = fl (a * ATR_MULTIPLIER_TP3 cfg)
      in if sd = LONG then
           \<lparr> symbol = smb, side = sd, entry_a = price,
             entry_b = (if ENABLE_AVERAGING cfg
                        then Some (fl (price * fl (1 - AVERAGING_DISTANCE cfg))) else None),
             stop = fl (price - sl_dist),
             tp1 = fl (price + tp1_dist),
             tp2 = fl (price + tp2_dist),
             tp3 = fl (price + tp3_dist),
             confidence = combined_conf \<rparr>
         else
           \<lparr> symbol = smb, side = sd, entry_a = price,
             entry_b = (if ENABLE_AVERAGING cfg
                        then Some (fl (price * fl (1 + AVERAGING_DISTANCE cfg))) else None),
             stop = fl (price + sl_dist),
             tp1 = fl (price - tp1_dist),
             tp2 = fl (price - tp2_dist),
             tp3 = fl (price - tp3_dist),
             confidence = combined_conf \<rparr>)"

definition generate_fl ::
  "(real \<Rightarrow> real) \<Rightarrow> config \<Rightarrow> ('df \<Rightarrow> row list option) \<Rightarrow> sklearn \<Rightarrow> ml_predictor \<Rightarrow> 'df
     \<Rightarrow> string \<Rightarrow> signal option \<times> ml_predictor" where
  "generate_fl fl cfg add_all_indicators sk ml df0 smb =
     (case add_all_indicators df0 of
        None \<Rightarrow> (None, ml)
      | Some df \<Rightarrow>
          if length df < 10 then (None, ml)
          else
            (case get_signal_strength_fl fl df of
               Inl e \<Rightarrow> (None, ml)
             | Inr strength \<Rightarrow>
                 (case predict sk ml df of
                    (Inl e, ml') \<Rightarrow> (None, ml')
                  | (Inr ml_pred, ml') \<Rightarrow>
                      let combined_conf =
                            fl (fl (ta_confidence strength + ml_confidence ml_pred) / 2)
                      in if combined_conf < MIN_CONFIDENCE cfg then (None, ml')
                         else
                           let current_adx = adx (last df)
                           in if current_adx < MIN_ADX cfg then (None, ml')
                              else
                                let d = direction ml_pred; ns = net_score strength
                                in if (d = 1 \<and> ns \<le> 0) \<or> (d = - 1 \<and> ns \<ge> 0) then (None, ml')
                                   else
                                     (Some (build_signal_fl fl cfg smb d (bar_close (last df))
                                              (atr (last df)) combined_conf), ml'))))"

section \<open>database.py: the trades table\<close>

text \<open>
  A row of the table \<^verbatim>\<open>trades\<close>.  The columns \<^verbatim>\<open>opened_at\<close> and \<^verbatim>\<open>closed_at\<close> hold wall-clock
  timestamps and are left out.  The text columns \<^verbatim>\<open>side\<close> and \<^verbatim>\<open>status\<close> only ever receive
  the two values written by the program.
\<close>

datatype status = OPEN | CLOSED

record trade =
  t_id :: nat
  t_symbol :: string
  t_side :: side
  t_entry_a :: real
  t_entry_b :: "real option"
  t_stop :: real
  t_tp1 :: real
  t_tp2 :: real
  t_tp3 :: real
  t_status :: status
  t_pnl :: "real option"
  tp1_hit :: bool
  tp2_hit :: bool
  tp3_hit :: bool

text \<open>\<^verbatim>\<open>UPDATE trades SET ... WHERE id = ?\<close> rewrites every row with that id.\<close>

definition update_where :: "nat \<Rightarrow> (trade \<Rightarrow> trade) \<Rightarrow> trade list \<Rightarrow> trade list" where
  "update_where i f tb = map (\<lambda>t. if t_id t = i then f t else t) tb"

text \<open>\<^verbatim>\<open>AUTOINCREMENT\<close>: the new id is one more than the largest id of the table.\<close>

definition next_id :: "trade list \<Rightarrow> nat" where
  "next_id tb = Suc (foldr max (map t_id tb) 0)"

definition open_trade ::
  "trade list \<Rightarrow> string \<Rightarrow> side \<Rightarrow> real \<Rightarrow> real option \<Rightarrow> real \<Rightarrow> real \<Rightarrow> real \<Rightarrow> real
     \<Rightarrow> nat \<times> trade list" where
  "open_trade tb smb sd ea eb st p1 p2 p3 =
     (let trade_id = next_id tb
      in (trade_id,
          tb @ [\<lparr> t_id = trade_id, t_symbol = smb, t_side = sd, t_entry_a = ea, t_entry_b = eb,
                  t_stop = st, t_tp1 = p1, t_tp2 = p2, t_tp3 = p3, t_status = OPEN,
                  t_pnl = None, tp1_hit = False, tp2_hit = False, tp3_hit = False \<rparr>]))"

definition close_trade :: "trade list \<Rightarrow> nat \<Rightarrow> real \<Rightarrow> trade list" where
  "close_trade tb trade_id pnl =
     update_where trade_id (\<lambda>t. t \<lparr> t_status := CLOSED, t_pnl := Some pnl \<rparr>) tb"

definition set_hit :: "nat \<Rightarrow> trade \<Rightarrow> trade" where
  "set_hit tp_level t =
     (if tp_level = 1 then t \<lparr> tp1_hit := True \<rparr>
      else if tp_level = 2 then t \<lparr> tp2_hit := True \<rparr>
      else t \<lparr> tp3_hit := True \<rparr>)"

definition get_hit :: "nat \<Rightarrow> trade \<Rightarrow> bool" where
  "get_hit tp_level t =
     (if tp_level = 1 then tp1_hit t else if tp_level = 2 then tp2_hit t else tp3_hit t)"

definition mark_tp_hit :: "trade list \<Rightarrow> nat \<Rightarrow> nat \<Rightarrow> trade list" where
  "mark_tp_hit tb trade_id tp_level =
     (if tp_level \<notin> {1, 2, 3} then tb
      else update_where trade_id (set_hit tp_level) tb)"

definition get_open_trades :: "trade list \<Rightarrow> trade list" where
  "get_open_trades tb = filter (\<lambda>t. t_status t = OPEN) tb"

definition is_tp_hit :: "trade list \<Rightarrow> nat \<Rightarrow> nat \<Rightarrow> bool" where
  "is_tp_hit tb trade_id tp_level =
     (if tp_level \<notin> {1, 2, 3} then False
      else (case find (\<lambda>t. t_id t = trade_id) tb of
              None \<Rightarrow> False
            | Some t \<Rightarrow> get_hit tp_level t))"

section \<open>data_fetcher.py: get_current_price\<close>

text \<open>
  The exchange answers a ticker request with the last price, or the request fails
  (\<open>None\<close>).  Every failure is caught and reported as the price 0.
\<close>

type_synonym exchange = "string \<Rightarrow> real option"

definition get_current_price :: "exchange \<Rightarrow> string \<Rightarrow> real" where
  "get_current_price ex smb = (case ex smb of None \<Rightarrow> 0 | Some l \<Rightarrow> l)"

section \<open>signal_tracker.py: SignalTracker\<close>

datatype event_type = STOP_LOSS | TP1 | TP2 | TP3_FULL

record event =
  ev_type :: event_type
  ev_signal :: trade
  hit_price :: real
  ev_pnl :: real

text \<open>
  The state the tracker works on: the table, the tracker's own \<^verbatim>\<open>price_cache\<close>, and the
  results handed to \<^verbatim>\<open>notifier.send_signal_result\<close> so far, oldest first.  A failed
  delivery is logged inside \<^verbatim>\<open>TelegramBot.send\<close> and does not reach the tracker, so the
  list records the calls, not the deliveries.  Failures of the SQLite calls themselves
  (a locked or missing file) are not part of the model.
\<close>

record state =
  db :: "trade list"
  price_cache :: "string \<Rightarrow> real option"
  notified :: "event list"

definition init_tracker :: "trade list \<Rightarrow> state" where
  "init_tracker tb = \<lparr> db = tb, price_cache = Map.empty, notified = [] \<rparr>"

fun update_prices :: "exchange \<Rightarrow> string list \<Rightarrow> (string \<Rightarrow> real option) \<Rightarrow> (string \<Rightarrow> real option)" where
  "update_prices ex [] cache = cache"
| "update_prices ex (smb # symbols) cache =
     (let price = get_current_price ex smb
      in update_prices ex symbols (if price > 0 then cache(smb \<mapsto> price) else cache))"

definition calculate_weighted_entry :: "config \<Rightarrow> real \<Rightarrow> real option \<Rightarrow> real" where
  "calculate_weighted_entry cfg ea eb =
     (case eb of
        None \<Rightarrow> ea
      | Some b \<Rightarrow> ea * POSITION_SIZE_A cfg + b * POSITION_SIZE_B cfg)"

text \<open>Python float division raises ZeroDivisionError on a zero divisor.\<close>

definition calculate_pnl :: "real \<Rightarrow> real \<Rightarrow> bool \<Rightarrow> py_error + real" where
  "calculate_pnl entry_avg exit_price is_long =
     (if entry_avg = 0 then Inl ZeroDivisionError
      else if is_long then Inr (((exit_price - entry_avg) / entry_avg) * 100)
      else Inr (((entry_avg - exit_price) / entry_avg) * 100))"

definition send_signal_result :: "state \<Rightarrow> event \<Rightarrow> state" where
  "send_signal_result st result = st \<lparr> notified := notified st @ [result] \<rparr>"

text \<open>
  One take-profit block of \<^verbatim>\<open>_check_signal\<close>.  The three blocks differ in the level
  number, the level price, the event type, and in that the third also closes the trade.
  An exception leaves the state as it is at that point.
\<close>

definition check_tp ::
  "nat \<Rightarrow> event_type \<Rightarrow> bool \<Rightarrow> trade \<Rightarrow> real \<Rightarrow> real \<Rightarrow> real \<Rightarrow> state \<times> event list
     \<Rightarrow> py_error \<times> state + state \<times> event list" where
  "check_tp tp_level ty closes sg current_price entry_avg tp acc =
     (let st = fst acc; tp_results = snd acc;
          is_long = (t_side sg = LONG);
          tp_hit = ((is_long \<and> current_price \<ge> tp) \<or> (\<not> is_long \<and> current_price \<le> tp))
      in if tp_hit \<and> \<not> is_tp_hit (db st) (t_id sg) tp_level then
           (case calculate_pnl entry_avg tp is_long of
              Inl e \<Rightarrow> Inl (e, st)
            | Inr pnl \<Rightarrow>
                let db1 = mark_tp_hit (db st) (t_id sg) tp_level;
                    db2 = (if closes then close_trade db1 (t_id sg) pnl else db1);
                    result = \<lparr> ev_type = ty, ev_signal = sg, hit_price = current_price,
                               ev_pnl = pnl \<rparr>
                in Inr (send_signal_result (st \<lparr> db := db2 \<rparr>) result, tp_results @ [result]))
         else Inr (st, tp_results))"

definition check_signal :: "config \<Rightarrow> state \<Rightarrow> trade \<Rightarrow> (py_error + event option) \<times> state" where
  "check_signal cfg st sg =
     (case price_cache st (t_symbol sg) of
        None \<Rightarrow> (Inr None, st)
      | Some current_price \<Rightarrow>
          if current_price = 0 then (Inr None, st)
          else
            let is_long = (t_side sg = LONG);
                entry_avg = calculate_weighted_entry cfg (t_entry_a sg) (t_entry_b sg);
                stop_hit = ((is_long \<and> current_price \<le> t_stop sg)
                            \<or> (\<not> is_long \<and> current_price \<ge> t_stop sg))
            in if stop_hit then
                 (case calculate_pnl entry_avg (t_stop sg) is_long of
                    Inl e \<Rightarrow> (Inl e, st)
                  | Inr pnl \<Rightarrow>
                      let result = \<lparr> ev_type = STOP_LOSS, ev_signal = sg,
                                     hit_price = current_price, ev_pnl = pnl \<rparr>
                      in (Inr (Some result),
                          send_signal_result (st \<lparr> db := close_trade (db st) (t_id sg) pnl \<rparr>) result))
               else
                 (case check_tp 1 TP1 False sg current_price entry_avg (t_tp1 sg) (st, []) of
                    Inl (e, st') \<Rightarrow> (Inl e, st')
                  | Inr acc1 \<Rightarrow>
                      (case check_tp 2 TP2 False sg current_price entry_avg (t_tp2 sg) acc1 of
                         Inl (e, st') \<Rightarrow> (Inl e, st')
                       | Inr acc2 \<Rightarrow>
                           (case check_tp 3 TP3_FULL True sg current_price entry_avg (t_tp3 sg) acc2 of
                              Inl (e, st') \<Rightarrow> (Inl e, st')
                            | Inr (st', tp_results) \<Rightarrow>
                                (Inr (case tp_results of [] \<Rightarrow> None | r # _ \<Rightarrow> Some r), st')))))"

text \<open>The loop of \<^verbatim>\<open>check_all_signals\<close>; an exception ends it with the state reached.\<close>

fun check_loop ::
  "config \<Rightarrow> trade list \<Rightarrow> state \<Rightarrow> event list \<Rightarrow> (py_error + event list) \<times> state" where
  "check_loop cfg [] st results = (Inr results, st)"
| "check_loop cfg (sg # signals) st results =
     (case check_signal cfg st sg of
        (Inl e, st') \<Rightarrow> (Inl e, st')
      | (Inr None, st') \<Rightarrow> check_loop cfg signals st' results
      | (Inr (Some r), st') \<Rightarrow> check_loop cfg signals st' (results @ [r]))"

text \<open>
  \<^verbatim>\<open>list(set(...))\<close> lists each symbol once, in no fixed order; the prices written do
  not depend on that order, since each symbol is asked once.
\<close>

definition check_all_signals :: "config \<Rightarrow> exchange \<Rightarrow> state \<Rightarrow> (py_error + event list) \<times> state" where
  "check_all_signals cfg ex st =
     (let active_signals = get_open_trades (db st)
      in if active_signals = [] then (Inr [], st)
         else
           let symbols = remdups (map t_symbol active_signals);
               st1 = st \<lparr> price_cache := update_prices ex symbols (price_cache st) \<rparr>
           in check_loop cfg active_signals st1 [])"

section \<open>main.py: the two scheduled tasks\<close>

text \<open>
  The scheduler interleaves check cycles with scans.  A check cycle that raises is
  logged and the next one runs on the state it left.  Of a scan only the trade it opens
  matters to the tracker.
\<close>

datatype action = Check exchange | Open signal

definition step :: "config \<Rightarrow> state \<Rightarrow> action \<Rightarrow> state" where
  "step cfg st a =
     (case a of
        Check ex \<Rightarrow> snd (check_all_signals cfg ex st)
      | Open sig \<Rightarrow>
          st \<lparr> db := snd (open_trade (db st) (symbol sig) (side sig) (entry_a sig) (entry_b sig)
                           (stop sig) (tp1 sig) (tp2 sig) (tp3 sig)) \<rparr>)"

fun run :: "config \<Rightarrow> state \<Rightarrow> action list \<Rightarrow> state" where
  "run cfg st [] = st"
| "run cfg st (a # as) = run cfg (step cfg st a) as"

section \<open>Notions used in the statements and proofs\<close>

definition ex_row :: row where
  "ex_row = \<lparr> bar_open = 99, bar_close = 100, rsi = 25, macd = 1, macd_signal = 0.5,
     macd_histogram = 0.5, sma_20 = 98, sma_50 = 95, bb_lower = 90, bb_upper = 110,
     bb_pband = 0.5, stoch_k = 50, stoch_d = 50, adx = 25, atr = 2, atr_percent = 2,
     volume_ratio = 1 \<rparr>"

definition ex_cfg :: config where
  "ex_cfg = \<lparr> ENABLE_AVERAGING = True, AVERAGING_DISTANCE = 0.02, ATR_MULTIPLIER_SL = 1.5,
     ATR_MULTIPLIER_TP1 = 2, ATR_MULTIPLIER_TP2 = 3, ATR_MULTIPLIER_TP3 = 5,
     MIN_CONFIDENCE = 0.6, MIN_ADX = 20, POSITION_SIZE_A = 0.7, POSITION_SIZE_B = 0.3 \<rparr>"

definition ex_clf :: classifier where
  "ex_clf = \<lparr> classes = [- 1, 1], predict_proba = (\<lambda>_. Some [0.2, 0.8]) \<rparr>"

definition ex_sklearn :: sklearn where
  "ex_sklearn = \<lparr> fit = (\<lambda>_. Some ex_clf), score = (\<lambda>_ _. Some 0.5) \<rparr>"

definition ex_ml :: ml_predictor where
  "ex_ml = \<lparr> model = ex_clf, trained = True \<rparr>"




definition all_closed :: "trade list \<Rightarrow> nat \<Rightarrow> bool" where
  "all_closed tb i = (\<forall>t \<in> set tb. t_id t = i \<longrightarrow> t_status t = CLOSED)"

definition exit_level :: "event_type \<Rightarrow> trade \<Rightarrow> real" where
  "exit_level ty sg = (case ty of STOP_LOSS \<Rightarrow> t_stop sg | TP1 \<Rightarrow> t_tp1 sg | TP2 \<Rightarrow> t_tp2 sg | TP3_FULL \<Rightarrow> t_tp3 sg)"

definition emitted :: "state \<Rightarrow> state \<Rightarrow> event list" where
  "emitted st st' = drop (length (notified st)) (notified st')"

definition cnt :: "nat \<Rightarrow> event_type \<Rightarrow> event list \<Rightarrow> nat" where
  "cnt i ty evs = length (filter (\<lambda>e. t_id (ev_signal e) = i \<and> ev_type e = ty) evs)"

definition reached :: "trade \<Rightarrow> real \<Rightarrow> real \<Rightarrow> bool" where
  "reached sg cp tp \<longleftrightarrow> (t_side sg = LONG \<and> cp \<ge> tp) \<or> (t_side sg \<noteq> LONG \<and> cp \<le> tp)"

definition stop_reached :: "trade \<Rightarrow> real \<Rightarrow> bool" where
  "stop_reached sg cp \<longleftrightarrow>
     (t_side sg = LONG \<and> cp \<le> t_stop sg) \<or> (t_side sg \<noteq> LONG \<and> cp \<ge> t_stop sg)"

definition pnl_value :: "trade \<Rightarrow> real \<Rightarrow> real \<Rightarrow> real" where
  "pnl_value sg ea ex =
     (if t_side sg = LONG then ((ex - ea) / ea) * 100 else ((ea - ex) / ea) * 100)"

definition weighted :: "config \<Rightarrow> trade \<Rightarrow> real" where
  "weighted cfg sg = calculate_weighted_entry cfg (t_entry_a sg) (t_entry_b sg)"

definition mk_event :: "config \<Rightarrow> event_type \<Rightarrow> trade \<Rightarrow> real \<Rightarrow> event" where
  "mk_event cfg ty sg cp =
     \<lparr> ev_type = ty, ev_signal = sg, hit_price = cp,
       ev_pnl = pnl_value sg (weighted cfg sg) (exit_level ty sg) \<rparr>"

definition fires :: "trade list \<Rightarrow> trade \<Rightarrow> real \<Rightarrow> event_type \<Rightarrow> bool" where
  "fires tb sg cp ty \<longleftrightarrow>
     reached sg cp (exit_level ty sg)
     \<and> \<not> is_tp_hit tb (t_id sg) (case ty of TP1 \<Rightarrow> 1 | TP2 \<Rightarrow> 2 | TP3_FULL \<Rightarrow> 3 | STOP_LOSS \<Rightarrow> 0)"

definition tp_events :: "config \<Rightarrow> trade list \<Rightarrow> trade \<Rightarrow> real \<Rightarrow> event list" where
  "tp_events cfg tb sg cp =
     (if fires tb sg cp TP1 then [mk_event cfg TP1 sg cp] else [])
     @ (if fires tb sg cp TP2 then [mk_event cfg TP2 sg cp] else [])
     @ (if fires tb sg cp TP3_FULL then [mk_event cfg TP3_FULL sg cp] else [])"

definition tp_db :: "config \<Rightarrow> trade list \<Rightarrow> trade \<Rightarrow> real \<Rightarrow> trade list" where
  "tp_db cfg tb sg cp =
     (let d1 = (if fires tb sg cp TP1 then mark_tp_hit tb (t_id sg) 1 else tb);
          d2 = (if fires tb sg cp TP2 then mark_tp_hit d1 (t_id sg) 2 else d1)
      in if fires tb sg cp TP3_FULL
         then close_trade (mark_tp_hit d2 (t_id sg) 3) (t_id sg)
                (pnl_value sg (weighted cfg sg) (t_tp3 sg))
         else d2)"

definition stamped :: "config \<Rightarrow> (string \<Rightarrow> real option) \<Rightarrow> event \<Rightarrow> bool" where
  "stamped cfg cache e \<longleftrightarrow>
     cache (t_symbol (ev_signal e)) = Some (hit_price e) \<and> hit_price e \<noteq> 0
     \<and> weighted cfg (ev_signal e) \<noteq> 0
     \<and> ev_pnl e = pnl_value (ev_signal e) (weighted cfg (ev_signal e))
                    (exit_level (ev_type e) (ev_signal e))"

definition flag_done :: "trade list \<Rightarrow> nat \<Rightarrow> event_type \<Rightarrow> bool" where
  "flag_done tb i ty =
     (case ty of STOP_LOSS \<Rightarrow> False | TP1 \<Rightarrow> is_tp_hit tb i 1
               | TP2 \<Rightarrow> is_tp_hit tb i 2 | TP3_FULL \<Rightarrow> is_tp_hit tb i 3)"

definition settled :: "trade list \<Rightarrow> nat \<Rightarrow> event_type \<Rightarrow> bool" where
  "settled tb i ty \<longleftrightarrow> i \<in> set (map t_id tb) \<and> (all_closed tb i \<or> flag_done tb i ty)"

definition advance :: "config \<Rightarrow> trade set \<Rightarrow> state \<Rightarrow> state \<Rightarrow> bool" where
  "advance cfg S st st' \<longleftrightarrow>
     notified st' = notified st @ emitted st st'
     \<and> price_cache st' = price_cache st
     \<and> map t_id (db st') = map t_id (db st)
     \<and> (\<forall>j k. is_tp_hit (db st) j k \<longrightarrow> is_tp_hit (db st') j k)
     \<and> (\<forall>j. all_closed (db st) j \<longrightarrow> all_closed (db st') j)
     \<and> (\<forall>e \<in> set (emitted st st'). ev_signal e \<in> S \<and> stamped cfg (price_cache st) e)"

definition refresh :: "exchange \<Rightarrow> state \<Rightarrow> state" where
  "refresh ex st =
     st \<lparr> price_cache := update_prices ex (remdups (map t_symbol (get_open_trades (db st))))
                           (price_cache st) \<rparr>"

definition cache_pos :: "(string \<Rightarrow> real option) \<Rightarrow> bool" where
  "cache_pos cache \<longleftrightarrow> (\<forall>smb p. cache smb = Some p \<longrightarrow> 0 < p)"

definition pnl_ok :: "config \<Rightarrow> event \<Rightarrow> bool" where
  "pnl_ok cfg e \<longleftrightarrow>
     (let sg = ev_signal e;
          w = calculate_weighted_entry cfg (t_entry_a sg) (t_entry_b sg);
          x = exit_level (ev_type e) sg
      in w \<noteq> 0
         \<and> ev_pnl e = (if t_side sg = LONG then (x - w) / w * 100 else (w - x) / w * 100))"

definition once :: "nat \<Rightarrow> event_type \<Rightarrow> state \<Rightarrow> bool" where
  "once i ty st \<longleftrightarrow>
     distinct (map t_id (db st)) \<and> cnt i ty (notified st) \<le> Suc 0
     \<and> (0 < cnt i ty (notified st) \<longrightarrow> settled (db st) i ty)"

definition priced :: "config \<Rightarrow> state \<Rightarrow> bool" where
  "priced cfg st \<longleftrightarrow>
     cache_pos (price_cache st)
     \<and> (\<forall>e \<in> set (notified st). 0 < hit_price e \<and> pnl_ok cfg e)"

definition only_ids :: "nat set \<Rightarrow> trade list \<Rightarrow> trade list \<Rightarrow> bool" where
  "only_ids I tb tb' \<longleftrightarrow>
     list_all2 (\<lambda>t t'. t_id t' = t_id t \<and> t_symbol t' = t_symbol t \<and> (t_id t \<notin> I \<longrightarrow> t' = t))
       tb tb'"

definition priced_ids :: "(string \<Rightarrow> real option) \<Rightarrow> trade list \<Rightarrow> nat set" where
  "priced_ids cache sigs = t_id ` {sg \<in> set sigs. cache (t_symbol sg) \<noteq> None}"

definition position_events :: "config \<Rightarrow> (string \<Rightarrow> real option) \<Rightarrow> trade list \<Rightarrow> trade \<Rightarrow> event list" where
  "position_events cfg cache tb sg =
     (case cache (t_symbol sg) of
        None \<Rightarrow> []
      | Some cp \<Rightarrow>
          if cp = 0 then []
          else if stop_reached sg cp then [mk_event cfg STOP_LOSS sg cp]
          else tp_events cfg tb sg cp)"

definition position_db :: "config \<Rightarrow> (string \<Rightarrow> real option) \<Rightarrow> trade list \<Rightarrow> trade \<Rightarrow> trade list" where
  "position_db cfg cache tb sg =
     (case cache (t_symbol sg) of
        None \<Rightarrow> tb
      | Some cp \<Rightarrow>
          if cp = 0 then tb
          else if stop_reached sg cp
          then close_trade tb (t_id sg) (pnl_value sg (weighted cfg sg) (t_stop sg))
          else tp_db cfg tb sg cp)"


section \<open>Example data\<close>



definition weak_frame :: "row list" where
  "weak_frame = replicate 10 (ex_row \<lparr> adx := 15 \<rparr>)"

definition ex_strength :: strength where
  "ex_strength = \<lparr> bullish_score = 5, bearish_score = 0, trend_strength = 25, net_score = 5,
     ta_confidence = 1 \<rparr>"






definition pos_a :: trade where
  "pos_a = \<lparr> t_id = 1, t_symbol = ''BTCUSDT'', t_side = LONG, t_entry_a = 100,
     t_entry_b = Some 98, t_stop = 95, t_tp1 = 105, t_tp2 = 110, t_tp3 = 120,
     t_status = OPEN, t_pnl = None, tp1_hit = False, tp2_hit = False, tp3_hit = False \<rparr>"

definition quote :: "real \<Rightarrow> exchange" where
  "quote p = (\<lambda>smb. Some p)"

definition no_quote :: exchange where
  "no_quote = (\<lambda>smb. None)"

definition ev_a :: event where
  "ev_a = \<lparr> ev_type = TP1, ev_signal = pos_a, hit_price = 105,
            ev_pnl = (105 - 99.4) / 99.4 * 100 \<rparr>"

definition st_a :: state where
  "st_a = \<lparr> db = [pos_a \<lparr> tp1_hit := True \<rparr>],
            price_cache = [''BTCUSDT'' \<mapsto> 105], notified = [ev_a] \<rparr>"

definition pos_a1 :: trade where
  "pos_a1 = pos_a \<lparr> tp1_hit := True \<rparr>"

definition ev_b :: event where
  "ev_b = \<lparr> ev_type = STOP_LOSS, ev_signal = pos_a1, hit_price = 94,
            ev_pnl = (95 - 99.4) / 99.4 * 100 \<rparr>"

definition st_b :: state where
  "st_b = \<lparr> db = [pos_a1 \<lparr> t_status := CLOSED, t_pnl := Some ((95 - 99.4) / 99.4 * 100) \<rparr>],
            price_cache = [''BTCUSDT'' \<mapsto> 94], notified = [ev_a, ev_b] \<rparr>"

definition ev_1 :: event where
  "ev_1 = \<lparr> ev_type = TP1, ev_signal = pos_a, hit_price = 121,
            ev_pnl = (105 - 99.4) / 99.4 * 100 \<rparr>"

definition ev_2 :: event where
  "ev_2 = \<lparr> ev_type = TP2, ev_signal = pos_a, hit_price = 121,
            ev_pnl = (110 - 99.4) / 99.4 * 100 \<rparr>"

definition ev_3 :: event where
  "ev_3 = \<lparr> ev_type = TP3_FULL, ev_signal = pos_a, hit_price = 121,
            ev_pnl = (120 - 99.4) / 99.4 * 100 \<rparr>"

definition st_3 :: state where
  "st_3 = \<lparr> db = [pos_a \<lparr> t_status := CLOSED, t_pnl := Some ((120 - 99.4) / 99.4 * 100),
                          tp1_hit := True, tp2_hit := True, tp3_hit := True \<rparr>],
            price_cache = [''BTCUSDT'' \<mapsto> 121], notified = [ev_1, ev_2, ev_3] \<rparr>"

definition zero_st :: state where
  "zero_st = \<lparr> db = [pos_a], price_cache = [''BTCUSDT'' \<mapsto> 0], notified = [] \<rparr>"

definition sig_new :: signal where
  "sig_new = \<lparr> symbol = ''BTCUSDT'', side = LONG, entry_a = 104, entry_b = None, stop = 101,
     tp1 = 108, tp2 = 110, tp3 = 114, confidence = 0.9 \<rparr>"

definition pos_n :: trade where
  "pos_n = \<lparr> t_id = 2, t_symbol = ''BTCUSDT'', t_side = LONG, t_entry_a = 104,
     t_entry_b = None, t_stop = 101, t_tp1 = 108, t_tp2 = 110, t_tp3 = 114,
     t_status = OPEN, t_pnl = None, tp1_hit = False, tp2_hit = False, tp3_hit = False \<rparr>"

definition st_c :: state where
  "st_c = \<lparr> db = [pos_a], price_cache = [''BTCUSDT'' \<mapsto> 100], notified = [] \<rparr>"

definition st_d :: state where
  "st_d = \<lparr> db = [pos_a, pos_n], price_cache = [''BTCUSDT'' \<mapsto> 100], notified = [] \<rparr>"

definition ev_stale :: event where
  "ev_stale = \<lparr> ev_type = STOP_LOSS, ev_signal = pos_n, hit_price = 100,
                ev_pnl = (101 - 104) / 104 * 100 \<rparr>"

definition st_e :: state where
  "st_e = \<lparr> db = [pos_a, pos_n \<lparr> t_status := CLOSED, t_pnl := Some ((101 - 104) / 104 * 100) \<rparr>],
            price_cache = [''BTCUSDT'' \<mapsto> 100], notified = [ev_stale] \<rparr>"

definition milli :: "real \<Rightarrow> real" where
  "milli x = real_of_int \<lfloor>x * 1000 + 1 / 2\<rfloor> / 1000"



section \<open>Auxiliary lemmas\<close>







lemma neutral_bounds: "0 \<le> ml_confidence neutral \<and> ml_confidence neutral \<le> 1" "direction neutral = 0"
  by (simp_all add: neutral_def)


lemma predict_fitted_direction: "direction (predict_fitted clf df) \<in> {- 1, 0, 1}"
  by (auto simp: predict_fitted_def neutral_def Let_def split: option.splits)

lemma predict_fitted_zero_conf:
  "direction (predict_fitted clf df) = 0 \<Longrightarrow> ml_confidence (predict_fitted clf df) = 0"
  by (auto simp: predict_fitted_def neutral_def Let_def split: option.splits if_splits)




lemma ids_update_where:
  "(\<And>t. t_id (f t) = t_id t) \<Longrightarrow> map t_id (update_where i f tb) = map t_id tb"
  by (induction tb) (auto simp: update_where_def)

lemma find_update_where:
  "(\<And>t. t_id (f t) = t_id t) \<Longrightarrow>
   find (\<lambda>t. t_id t = j) (update_where i f tb)
     = map_option (\<lambda>t. if t_id t = i then f t else t) (find (\<lambda>t. t_id t = j) tb)"
  by (induction tb) (auto simp: update_where_def)

lemma set_hit_id [simp]: "t_id (set_hit l t) = t_id t"
  by (simp add: set_hit_def)

lemma set_hit_status [simp]: "t_status (set_hit l t) = t_status t"
  by (simp add: set_hit_def)

lemma ids_close_trade [simp]: "map t_id (close_trade tb i pnl) = map t_id tb"
  by (simp add: close_trade_def ids_update_where)

lemma ids_mark_tp_hit [simp]: "map t_id (mark_tp_hit tb i l) = map t_id tb"
  by (simp add: mark_tp_hit_def ids_update_where)

lemma idset_close_trade [simp]: "t_id ` set (close_trade tb i pnl) = t_id ` set tb"
  using ids_close_trade [of tb i pnl] by (metis list.set_map)

lemma idset_mark_tp_hit [simp]: "t_id ` set (mark_tp_hit tb i l) = t_id ` set tb"
  using ids_mark_tp_hit [of tb i l] by (metis list.set_map)

lemma find_None_ids: "find (\<lambda>t. t_id t = j) tb = None \<longleftrightarrow> j \<notin> set (map t_id tb)"
  by (induction tb) auto

lemma is_tp_hit_close_trade [simp]: "is_tp_hit (close_trade tb i pnl) j k = is_tp_hit tb j k"
  by (cases "find (\<lambda>t. t_id t = j) tb")
     (auto simp: is_tp_hit_def close_trade_def find_update_where get_hit_def)

lemma is_tp_hit_mark_tp_hit:
  "is_tp_hit (mark_tp_hit tb i l) j k
     = (is_tp_hit tb j k \<or> (i = j \<and> k = l \<and> l \<in> {1, 2, 3} \<and> j \<in> set (map t_id tb)))"
proof (cases "find (\<lambda>t. t_id t = j) tb")
  case None
  then show ?thesis
    using find_None_ids [of j tb]
    by (auto simp: is_tp_hit_def mark_tp_hit_def find_update_where)
next
  case (Some t)
  then have in_ids: "j \<in> set (map t_id tb)" using find_None_ids [of j tb] by auto
  from Some have tj: "t_id t = j" by (auto simp: find_Some_iff)
  show ?thesis
  proof (cases "l \<in> {1, 2, 3}")
    case True
    with Some in_ids tj show ?thesis
      by (auto simp: is_tp_hit_def mark_tp_hit_def find_update_where get_hit_def set_hit_def)
  next
    case False
    then show ?thesis by (auto simp: mark_tp_hit_def is_tp_hit_def)
  qed
qed

lemma all_closed_Nil [simp]: "all_closed [] j"
  by (simp add: all_closed_def)

lemma all_closed_Cons [simp]:
  "all_closed (t # tb) j = ((t_id t = j \<longrightarrow> t_status t = CLOSED) \<and> all_closed tb j)"
  by (auto simp: all_closed_def)

lemma all_closed_close_trade:
  "all_closed (close_trade tb i pnl) j = (all_closed tb j \<or> i = j)"
  by (induction tb) (auto simp: close_trade_def update_where_def)

lemma all_closed_mark_tp_hit [simp]:
  "all_closed (mark_tp_hit tb i l) j = all_closed tb j"
  by (induction tb) (auto simp: mark_tp_hit_def update_where_def)

lemma open_status_close_trade:
  "t \<in> set (close_trade tb i pnl) \<Longrightarrow> t_status t = OPEN \<Longrightarrow> t \<in> set tb"
  by (auto simp: close_trade_def update_where_def split: if_splits)

lemma calculate_pnl_eq:
  "calculate_pnl ea ex (t_side sg = LONG)
     = (if ea = 0 then Inl ZeroDivisionError else Inr (pnl_value sg ea ex))"
  by (simp add: calculate_pnl_def pnl_value_def)

lemma check_tp_eq:
  "check_tp lvl ty closes sg cp ea tp (st, rs) =
     (if reached sg cp tp \<and> \<not> is_tp_hit (db st) (t_id sg) lvl
      then (if ea = 0 then Inl (ZeroDivisionError, st)
            else Inr (st \<lparr> db := (if closes
                                    then close_trade (mark_tp_hit (db st) (t_id sg) lvl) (t_id sg)
                                           (pnl_value sg ea tp)
                                    else mark_tp_hit (db st) (t_id sg) lvl),
                            notified := notified st @
                              [\<lparr> ev_type = ty, ev_signal = sg, hit_price = cp,
                                 ev_pnl = pnl_value sg ea tp \<rparr>] \<rparr>,
                      rs @ [\<lparr> ev_type = ty, ev_signal = sg, hit_price = cp,
                                 ev_pnl = pnl_value sg ea tp \<rparr>]))
      else Inr (st, rs))"
  by (cases "t_side sg = LONG")
     (simp_all add: check_tp_def calculate_pnl_def pnl_value_def send_signal_result_def
        Let_def reached_def)

lemma check_signal_skip:
  assumes "price_cache st (t_symbol sg) = None \<or> price_cache st (t_symbol sg) = Some 0"
  shows "check_signal cfg st sg = (Inr None, st)"
  using assms by (auto simp: check_signal_def)

lemma check_signal_stop:
  assumes "price_cache st (t_symbol sg) = Some cp" "cp \<noteq> 0" "stop_reached sg cp"
    "weighted cfg sg \<noteq> 0"
  shows "check_signal cfg st sg =
     (Inr (Some (mk_event cfg STOP_LOSS sg cp)),
      st \<lparr> db := close_trade (db st) (t_id sg) (pnl_value sg (weighted cfg sg) (t_stop sg)),
           notified := notified st @ [mk_event cfg STOP_LOSS sg cp] \<rparr>)"
  using assms
  by (cases "t_side sg = LONG")
     (simp_all add: check_signal_def calculate_pnl_def pnl_value_def Let_def stop_reached_def
        weighted_def mk_event_def exit_level_def send_signal_result_def)

lemma check_signal_stop_zero:
  assumes "price_cache st (t_symbol sg) = Some cp" "cp \<noteq> 0" "stop_reached sg cp"
    "weighted cfg sg = 0"
  shows "check_signal cfg st sg = (Inl ZeroDivisionError, st)"
  using assms
  by (cases "t_side sg = LONG")
     (simp_all add: check_signal_def calculate_pnl_def Let_def stop_reached_def weighted_def)

lemma check_signal_tp_zero:
  assumes "price_cache st (t_symbol sg) = Some cp" "cp \<noteq> 0" "\<not> stop_reached sg cp"
    "weighted cfg sg = 0"
  shows "check_signal cfg st sg =
     (if tp_events cfg (db st) sg cp = [] then (Inr None, st) else (Inl ZeroDivisionError, st))"
  using assms unfolding check_signal_def
  by (cases "t_side sg = LONG")
     (simp_all add: check_tp_eq Let_def stop_reached_def weighted_def tp_events_def fires_def exit_level_def)

lemma check_signal_tp:
  assumes "price_cache st (t_symbol sg) = Some cp" "cp \<noteq> 0" "\<not> stop_reached sg cp"
    "weighted cfg sg \<noteq> 0"
  shows "check_signal cfg st sg =
     (Inr (case tp_events cfg (db st) sg cp of [] \<Rightarrow> None | r # _ \<Rightarrow> Some r),
      st \<lparr> db := tp_db cfg (db st) sg cp,
           notified := notified st @ tp_events cfg (db st) sg cp \<rparr>)"
  using assms unfolding check_signal_def
  by (cases "t_side sg = LONG")
     (simp_all add: check_tp_eq Let_def stop_reached_def weighted_def tp_events_def tp_db_def fires_def
        exit_level_def mk_event_def is_tp_hit_mark_tp_hit)

lemma mk_event_sel [simp]:
  "ev_type (mk_event cfg ty sg cp) = ty"
  "ev_signal (mk_event cfg ty sg cp) = sg"
  "hit_price (mk_event cfg ty sg cp) = cp"
  "ev_pnl (mk_event cfg ty sg cp) = pnl_value sg (weighted cfg sg) (exit_level ty sg)"
  by (simp_all add: mk_event_def)

lemma emitted_append [simp]:
  "emitted st (st \<lparr> db := d, notified := notified st @ evs \<rparr>) = evs"
  "emitted st st = []"
  by (simp_all add: emitted_def)

lemma check_signal_cases [case_names idle error stop tp]:
  obtains
    (idle) "check_signal cfg st sg = (Inr None, st)"
  | (error) "check_signal cfg st sg = (Inl ZeroDivisionError, st)"
  | (stop) cp where "price_cache st (t_symbol sg) = Some cp" "cp \<noteq> 0"
      "weighted cfg sg \<noteq> 0" "stop_reached sg cp"
      "check_signal cfg st sg =
         (Inr (Some (mk_event cfg STOP_LOSS sg cp)),
          st \<lparr> db := close_trade (db st) (t_id sg) (pnl_value sg (weighted cfg sg) (t_stop sg)),
               notified := notified st @ [mk_event cfg STOP_LOSS sg cp] \<rparr>)"
  | (tp) cp where "price_cache st (t_symbol sg) = Some cp" "cp \<noteq> 0"
      "weighted cfg sg \<noteq> 0" "\<not> stop_reached sg cp"
      "check_signal cfg st sg =
         (Inr (case tp_events cfg (db st) sg cp of [] \<Rightarrow> None | r # _ \<Rightarrow> Some r),
          st \<lparr> db := tp_db cfg (db st) sg cp,
               notified := notified st @ tp_events cfg (db st) sg cp \<rparr>)"
proof (cases "price_cache st (t_symbol sg)")
  case None
  then show ?thesis using idle check_signal_skip by blast
next
  case (Some cp)
  show ?thesis
  proof (cases "cp = 0")
    case True
    with Some show ?thesis using idle check_signal_skip by blast
  next
    case nz: False
    show ?thesis
    proof (cases "weighted cfg sg = 0")
      case True
      show ?thesis
      proof (cases "stop_reached sg cp")
        case True
        from check_signal_stop_zero [OF Some nz True \<open>weighted cfg sg = 0\<close>]
        show ?thesis by (rule error)
      next
        case False
        from check_signal_tp_zero [OF Some nz False True]
        show ?thesis using idle error by (auto split: if_splits)
      qed
    next
      case w: False
      show ?thesis
      proof (cases "stop_reached sg cp")
        case True
        from Some nz w True check_signal_stop [OF Some nz True w]
        show ?thesis by (rule stop)
      next
        case False
        from Some nz w False check_signal_tp [OF Some nz False w]
        show ?thesis by (rule tp)
      qed
    qed
  qed
qed

lemma tp_events_mem:
  "e \<in> set (tp_events cfg tb sg cp) \<longleftrightarrow>
     (\<exists>ty \<in> {TP1, TP2, TP3_FULL}. fires tb sg cp ty \<and> e = mk_event cfg ty sg cp)"
  by (auto simp: tp_events_def)

lemma tp_events_types: "distinct (map ev_type (tp_events cfg tb sg cp))"
  by (simp add: tp_events_def)

lemma ids_tp_db [simp]: "map t_id (tp_db cfg tb sg cp) = map t_id tb"
  by (simp add: tp_db_def Let_def)

lemma idset_tp_db [simp]: "t_id ` set (tp_db cfg tb sg cp) = t_id ` set tb"
  using ids_tp_db [of cfg tb sg cp] by (metis list.set_map)

lemma is_tp_hit_tp_db:
  "is_tp_hit (tp_db cfg tb sg cp) j k \<longleftrightarrow>
     is_tp_hit tb j k
     \<or> (j = t_id sg \<and> j \<in> set (map t_id tb)
        \<and> ((k = 1 \<and> fires tb sg cp TP1) \<or> (k = 2 \<and> fires tb sg cp TP2)
            \<or> (k = 3 \<and> fires tb sg cp TP3_FULL)))"
  by (auto simp: tp_db_def Let_def is_tp_hit_mark_tp_hit)

lemma all_closed_tp_db:
  "all_closed (tp_db cfg tb sg cp) j \<longleftrightarrow>
     all_closed tb j \<or> (j = t_id sg \<and> fires tb sg cp TP3_FULL)"
  by (auto simp: tp_db_def Let_def all_closed_close_trade)

lemma fires_not_done: "fires tb sg cp ty \<Longrightarrow> ty \<noteq> STOP_LOSS \<Longrightarrow> \<not> flag_done tb (t_id sg) ty"
  by (cases ty) (simp_all add: fires_def flag_done_def)

lemma fires_done_after:
  "fires tb sg cp ty \<Longrightarrow> ty \<noteq> STOP_LOSS \<Longrightarrow> t_id sg \<in> set (map t_id tb)
     \<Longrightarrow> flag_done (tp_db cfg tb sg cp) (t_id sg) ty"
  by (cases ty) (simp_all add: flag_done_def is_tp_hit_tp_db)

lemma emitted_trans:
  assumes "notified st1 = notified st @ emitted st st1" "notified st2 = notified st1 @ emitted st1 st2"
  shows "emitted st st2 = emitted st st1 @ emitted st1 st2"
    and "notified st2 = notified st @ emitted st st2"
proof -
  define a where "a = emitted st st1"
  define b where "b = emitted st1 st2"
  have "notified st2 = notified st @ (a @ b)"
    using assms by (simp add: a_def b_def)
  then have "drop (length (notified st)) (notified st2) = a @ b"
    by simp
  then show "emitted st st2 = emitted st st1 @ emitted st1 st2"
    by (simp add: emitted_def a_def b_def)
  then show "notified st2 = notified st @ emitted st st2"
    using assms by simp
qed

lemma stamped_mk_event:
  "stamped cfg cache (mk_event cfg ty sg cp) \<longleftrightarrow>
     cache (t_symbol sg) = Some cp \<and> cp \<noteq> 0 \<and> weighted cfg sg \<noteq> 0"
  by (simp add: stamped_def)

lemma check_signal_notified:
  assumes "check_signal cfg st sg = (r, st')"
  shows "notified st' = notified st @ emitted st st'"
  using assms by (cases rule: check_signal_cases [of cfg st sg]) auto

lemma check_signal_cache:
  assumes "check_signal cfg st sg = (r, st')"
  shows "price_cache st' = price_cache st"
  using assms by (cases rule: check_signal_cases [of cfg st sg]) auto

lemma check_signal_ids:
  assumes "check_signal cfg st sg = (r, st')"
  shows "map t_id (db st') = map t_id (db st)"
  using assms by (cases rule: check_signal_cases [of cfg st sg]) auto

lemma check_signal_error:
  assumes "check_signal cfg st sg = (Inl e, st')"
  shows "st' = st"
  using assms by (cases rule: check_signal_cases [of cfg st sg]) auto

lemma check_signal_result:
  assumes "check_signal cfg st sg = (Inr x, st')"
  shows "x = (case emitted st st' of [] \<Rightarrow> None | e # _ \<Rightarrow> Some e)"
  using assms by (cases rule: check_signal_cases [of cfg st sg]) auto

lemma check_signal_events:
  assumes "check_signal cfg st sg = (r, st')" "e \<in> set (emitted st st')"
  shows "ev_signal e = sg \<and> stamped cfg (price_cache st) e"
  using assms
  by (cases rule: check_signal_cases [of cfg st sg])
     (auto simp: tp_events_mem stamped_mk_event)

lemma check_signal_types:
  assumes "check_signal cfg st sg = (r, st')"
  shows "distinct (map ev_type (emitted st st'))"
  using assms
  by (cases rule: check_signal_cases [of cfg st sg]) (auto simp: tp_events_types)

lemma check_signal_fresh:
  assumes "check_signal cfg st sg = (r, st')" "e \<in> set (emitted st st')"
  shows "\<not> flag_done (db st) (t_id sg) (ev_type e)"
  using assms
  by (cases rule: check_signal_cases [of cfg st sg])
     (auto simp: tp_events_mem flag_done_def fires_def)

lemma check_signal_settles:
  assumes "check_signal cfg st sg = (r, st')" "e \<in> set (emitted st st')"
    "t_id sg \<in> t_id ` set (db st)"
  shows "settled (db st') (t_id sg) (ev_type e)"
proof (cases rule: check_signal_cases [of cfg st sg])
  case idle
  with assms show ?thesis by auto
next
  case error
  with assms show ?thesis by auto
next
  case (stop cp)
  with assms show ?thesis by (auto simp: settled_def all_closed_close_trade)
next
  case (tp cp)
  with assms(1) have st': "db st' = tp_db cfg (db st) sg cp"
    and em: "emitted st st' = tp_events cfg (db st) sg cp" by auto
  from assms(2) obtain ty where ty: "ty \<noteq> STOP_LOSS" "fires (db st) sg cp ty" "ev_type e = ty"
    unfolding em tp_events_mem by auto
  from assms(3) have "t_id sg \<in> set (map t_id (db st))" by simp
  from fires_done_after [OF ty(2) ty(1) this, of cfg] assms(3) ty(3)
  show ?thesis by (simp add: settled_def st')
qed

lemma check_signal_mono_hit:
  assumes "check_signal cfg st sg = (r, st')" "is_tp_hit (db st) j k"
  shows "is_tp_hit (db st') j k"
  using assms
  by (cases rule: check_signal_cases [of cfg st sg]) (auto simp: is_tp_hit_tp_db)

lemma check_signal_mono_closed:
  assumes "check_signal cfg st sg = (r, st')" "all_closed (db st) j"
  shows "all_closed (db st') j"
  using assms
  by (cases rule: check_signal_cases [of cfg st sg])
     (auto simp: all_closed_tp_db all_closed_close_trade)

lemma advance_refl: "advance cfg S st st"
  by (simp add: advance_def)

lemma advance_trans:
  assumes "advance cfg S st st1" "advance cfg T st1 st2"
  shows "advance cfg (S \<union> T) st st2"
proof -
  have n1: "notified st1 = notified st @ emitted st st1"
    and n2: "notified st2 = notified st1 @ emitted st1 st2"
    using assms by (simp_all add: advance_def)
  note tr = emitted_trans [OF n1 n2]
  have ev: "\<forall>e \<in> set (emitted st st2). ev_signal e \<in> S \<union> T \<and> stamped cfg (price_cache st) e"
    using assms unfolding tr(1) by (auto simp: advance_def)
  show ?thesis
    unfolding advance_def
    using assms tr(2) ev by (simp add: advance_def)
qed

lemma advance_mono: "advance cfg S st st' \<Longrightarrow> S \<subseteq> T \<Longrightarrow> advance cfg T st st'"
  by (auto simp: advance_def)

lemma check_signal_advance:
  assumes "check_signal cfg st sg = (r, st')"
  shows "advance cfg {sg} st st'"
  unfolding advance_def
  using check_signal_notified [OF assms] check_signal_cache [OF assms]
    check_signal_ids [OF assms] check_signal_mono_hit [OF assms]
    check_signal_mono_closed [OF assms] check_signal_events [OF assms]
  by auto

lemma check_loop_Cons:
  assumes "check_loop cfg (sg # sigs) st rs = (r, st')"
  obtains (abort) e where "check_signal cfg st sg = (Inl e, st)" "r = Inl e" "st' = st"
  | (continue) x st1 where "check_signal cfg st sg = (Inr x, st1)"
      "check_loop cfg sigs st1 (rs @ (case x of None \<Rightarrow> [] | Some y \<Rightarrow> [y])) = (r, st')"
proof -
  obtain y st1 where cs: "check_signal cfg st sg = (y, st1)"
    by (cases "check_signal cfg st sg")
  show thesis
  proof (cases y)
    case (Inl e)
    with cs check_signal_error have st1: "st1 = st" by blast
    have "check_loop cfg (sg # sigs) st rs = (Inl e, st)"
      by (simp add: cs Inl st1)
    with assms have "r = Inl e" "st' = st" by simp_all
    with cs Inl st1 show thesis by (intro abort [of e]) simp_all
  next
    case (Inr x)
    have "check_loop cfg (sg # sigs) st rs
            = check_loop cfg sigs st1 (rs @ (case x of None \<Rightarrow> [] | Some y \<Rightarrow> [y]))"
      by (cases x) (simp_all add: cs Inr)
    with assms have "check_loop cfg sigs st1 (rs @ (case x of None \<Rightarrow> [] | Some y \<Rightarrow> [y])) = (r, st')"
      by simp
    moreover have "check_signal cfg st sg = (Inr x, st1)" using cs Inr by simp
    ultimately show thesis by (intro continue [of x st1])
  qed
qed

lemma check_loop_advance:
  "check_loop cfg sigs st rs = (r, st') \<Longrightarrow> advance cfg (set sigs) st st'"
proof (induction sigs arbitrary: st rs)
  case Nil
  then show ?case by (simp add: advance_refl)
next
  case (Cons sg sigs)
  from Cons.prems show ?case
  proof (cases rule: check_loop_Cons)
    case (abort e)
    then show ?thesis by (simp add: advance_refl)
  next
    case (continue x st1)
    from advance_trans [OF check_signal_advance [OF continue(1)] Cons.IH [OF continue(2)]]
    show ?thesis by simp
  qed
qed

text \<open>The returned list holds the first event of each position that emitted some.\<close>

lemma check_loop_groups:
  "check_loop cfg sigs st rs = (Inr rs', st') \<Longrightarrow>
   \<exists>groups. list_all2 (\<lambda>sg g. (\<forall>e \<in> set g. ev_signal e = sg) \<and> distinct (map ev_type g))
              sigs groups
     \<and> emitted st st' = concat groups
     \<and> rs' = rs @ concat (map (take 1) groups)"
proof (induction sigs arbitrary: st rs)
  case Nil
  then show ?case by simp
next
  case (Cons sg sigs)
  from Cons.prems show ?case
  proof (cases rule: check_loop_Cons)
    case (abort e)
    then show ?thesis by simp
  next
    case (continue x st1)
    define g where "g = emitted st st1"
    from Cons.IH [OF continue(2)] obtain groups where
      gr: "list_all2 (\<lambda>sg g. (\<forall>e \<in> set g. ev_signal e = sg) \<and> distinct (map ev_type g))
              sigs groups"
        "emitted st1 st' = concat groups"
        "rs' = (rs @ (case x of None \<Rightarrow> [] | Some y \<Rightarrow> [y])) @ concat (map (take 1) groups)"
      by blast
    have x: "(case x of None \<Rightarrow> [] | Some y \<Rightarrow> [y]) = take 1 g"
      using check_signal_result [OF continue(1)] by (cases g) (simp_all add: g_def)
    have n1: "notified st1 = notified st @ emitted st st1"
      by (rule check_signal_notified [OF continue(1)])
    have n2: "notified st' = notified st1 @ emitted st1 st'"
      using check_loop_advance [OF continue(2)] by (simp add: advance_def)
    have em: "emitted st st' = g @ concat groups"
      using emitted_trans(1) [OF n1 n2] gr(2) by (simp add: g_def)
    have own: "(\<forall>e \<in> set g. ev_signal e = sg) \<and> distinct (map ev_type g)"
      using check_signal_events [OF continue(1)] check_signal_types [OF continue(1)]
      by (simp add: g_def)
    show ?thesis
      by (rule exI [of _ "g # groups"]) (simp add: gr(1) gr(3) x em own)
  qed
qed

lemma ex_row_sel:
  "bar_open ex_row = 99" "bar_close ex_row = 100" "rsi ex_row = 25" "macd ex_row = 1"
  "macd_signal ex_row = 0.5" "sma_20 ex_row = 98" "sma_50 ex_row = 95" "bb_lower ex_row = 90"
  "bb_upper ex_row = 110" "stoch_k ex_row = 50" "stoch_d ex_row = 50" "adx ex_row = 25"
  "atr ex_row = 2" "volume_ratio ex_row = 1"
  by (simp_all add: ex_row_def)

lemma ex_row_points:
  "rsi_points ex_row = (2, 0)" "macd_points ex_row ex_row = (1, 0)" "ma_points ex_row = (2, 0)"
  "bb_points ex_row = (0, 0)" "stoch_points ex_row = (0, 0)" "volume_points ex_row = (0, 0)"
  by (simp_all add: rsi_points_def macd_points_def ma_points_def bb_points_def
      stoch_points_def volume_points_def ex_row_sel)

lemma ex_row_scores: "bullish_signals ex_row ex_row = 5" "bearish_signals ex_row ex_row = 0"
  by (simp_all add: bullish_signals_def bearish_signals_def ex_row_points)



lemma scores_atr_adx:
  "bullish_signals (l \<lparr> atr := a \<rparr>) (p \<lparr> atr := b \<rparr>) = bullish_signals l p"
  "bearish_signals (l \<lparr> atr := a \<rparr>) (p \<lparr> atr := b \<rparr>) = bearish_signals l p"
  "bullish_signals (l \<lparr> adx := a \<rparr>) (p \<lparr> adx := b \<rparr>) = bullish_signals l p"
  "bearish_signals (l \<lparr> adx := a \<rparr>) (p \<lparr> adx := b \<rparr>) = bearish_signals l p"
  by (simp_all add: bullish_signals_def bearish_signals_def rsi_points_def macd_points_def
      ma_points_def bb_points_def stoch_points_def volume_points_def)


lemma weak_frame_shape:
  "length weak_frame = 10" "last weak_frame = ex_row \<lparr> adx := 15 \<rparr>"
  "weak_frame ! 8 = ex_row \<lparr> adx := 15 \<rparr>" "weak_frame \<noteq> []"
  by (auto simp: weak_frame_def)


lemma weak_strength_eval:
  "get_signal_strength weak_frame = Inr (ex_strength \<lparr> trend_strength := 15 \<rparr>)"
  by (simp add: get_signal_strength_def weak_frame_shape ex_strength_def Let_def
      scores_atr_adx ex_row_scores ex_row_sel)

lemma ex_clf_fitted:
  "df \<noteq> [] \<Longrightarrow> predict_fitted ex_clf df = \<lparr> direction = 1, ml_confidence = 0.8 \<rparr>"
  by (simp add: predict_fitted_def ex_clf_def Let_def)

lemma ex_predict_eval:
  "df \<noteq> [] \<Longrightarrow> predict ex_sklearn ex_ml df = (Inr \<lparr> direction = 1, ml_confidence = 0.8 \<rparr>, ex_ml)"
  by (simp add: predict_def ex_ml_def ex_clf_fitted)


lemma ex_cfg_sel:
  "ENABLE_AVERAGING ex_cfg" "AVERAGING_DISTANCE ex_cfg = 0.02" "ATR_MULTIPLIER_SL ex_cfg = 1.5"
  "ATR_MULTIPLIER_TP1 ex_cfg = 2" "ATR_MULTIPLIER_TP2 ex_cfg = 3" "ATR_MULTIPLIER_TP3 ex_cfg = 5"
  "MIN_CONFIDENCE ex_cfg = 0.6" "MIN_ADX ex_cfg = 20" "POSITION_SIZE_A ex_cfg = 0.7"
  "POSITION_SIZE_B ex_cfg = 0.3"
  by (simp_all add: ex_cfg_def)









lemma get_signal_strength_fl_id: "get_signal_strength_fl (\<lambda>x. x) = get_signal_strength"
  by (rule ext) (simp add: get_signal_strength_fl_def get_signal_strength_def)

lemma build_signal_fl_id: "build_signal_fl (\<lambda>x. x) = build_signal"
  by (intro ext) (simp add: build_signal_fl_def build_signal_def)

lemma generate_fl_id: "generate_fl (\<lambda>x. x) cfg ai sk ml df0 smb = generate cfg ai sk ml df0 smb"
  unfolding generate_fl_def generate_def get_signal_strength_fl_id build_signal_fl_id
  by simp


lemma get_signal_strength_fl_trend:
  fixes st :: strength
  assumes "get_signal_strength_fl fl df = Inr st"
  shows "trend_strength st = adx (last df)"
  using assms by (auto simp: get_signal_strength_fl_def Let_def split: if_splits)

lemma generate_fl_eq:
  assumes "ai df0 = Some df" "10 \<le> length df" "get_signal_strength_fl fl df = Inr st"
    "predict sk ml df = (Inr p, ml')"
  shows "generate_fl fl cfg ai sk ml df0 smb =
    (if fl (fl (ta_confidence st + ml_confidence p) / 2) < MIN_CONFIDENCE cfg
        \<or> adx (last df) < MIN_ADX cfg
        \<or> (direction p = 1 \<and> net_score st \<le> 0) \<or> (direction p = - 1 \<and> net_score st \<ge> 0)
     then (None, ml')
     else (Some (build_signal_fl fl cfg smb (direction p) (bar_close (last df)) (atr (last df))
                  (fl (fl (ta_confidence st + ml_confidence p) / 2))), ml'))"
  using assms by (simp add: generate_fl_def Let_def)










lemma milli_values:
  "milli 1 = 1" "milli 1.8 = 1.8" "milli 0.9 = 0.9" "milli 100 = 100"
  "milli 0.98 = 0.98" "milli 98 = 98"
  "milli 0.00015 = 0" "milli 0.0002 = 0" "milli 0.0003 = 0" "milli 0.0005 = 0.001"
  "milli 100.001 = 100.001"
  by (simp_all add: milli_def)



lemma weak_strength_fl_eval:
  "get_signal_strength_fl milli weak_frame = Inr (ex_strength \<lparr> trend_strength := 15 \<rparr>)"
  by (simp add: get_signal_strength_fl_def weak_frame_shape ex_strength_def Let_def
      scores_atr_adx ex_row_scores ex_row_sel milli_values)



lemma filter_distinct_le_one:
  "distinct (map f xs) \<Longrightarrow> length (filter (\<lambda>x. f x = y) xs) \<le> Suc 0"
proof (induction xs)
  case Nil
  then show ?case by simp
next
  case (Cons x xs)
  show ?case
  proof (cases "f x = y")
    case True
    with Cons.prems have "y \<notin> f ` set xs" by simp
    then have "\<forall>z \<in> set xs. f z \<noteq> y" by blast
    then have "filter (\<lambda>x. f x = y) xs = []" by (simp add: filter_empty_conv)
    with True show ?thesis by simp
  next
    case False
    with Cons show ?thesis by simp
  qed
qed

lemma cnt_append: "cnt i ty (a @ b) = cnt i ty a + cnt i ty b"
  by (simp add: cnt_def)

lemma cnt_Nil [simp]: "cnt i ty [] = 0"
  by (simp add: cnt_def)

lemma cnt_zero_iff:
  "cnt i ty evs = 0 \<longleftrightarrow> (\<forall>e \<in> set evs. \<not> (t_id (ev_signal e) = i \<and> ev_type e = ty))"
  by (simp add: cnt_def filter_empty_conv)

lemma cnt_pos_obtain:
  assumes "0 < cnt i ty evs"
  obtains e where "e \<in> set evs" "t_id (ev_signal e) = i" "ev_type e = ty"
  using assms cnt_zero_iff [of i ty evs] by auto

lemma cnt_le_types:
  assumes "distinct (map ev_type evs)"
  shows "cnt i ty evs \<le> Suc 0"
proof -
  have "cnt i ty evs \<le> length (filter (\<lambda>e. ev_type e = ty) evs)"
    unfolding cnt_def
    by (induction evs) auto
  also have "\<dots> \<le> Suc 0" by (rule filter_distinct_le_one [OF assms])
  finally show ?thesis .
qed

lemma check_signal_cnt_le:
  assumes "check_signal cfg st sg = (r, st')"
  shows "cnt i ty (emitted st st') \<le> Suc 0"
  by (rule cnt_le_types [OF check_signal_types [OF assms]])

lemma check_signal_cnt_other:
  assumes "check_signal cfg st sg = (r, st')" "t_id sg \<noteq> i"
  shows "cnt i ty (emitted st st') = 0"
  unfolding cnt_zero_iff using check_signal_events [OF assms(1)] assms(2) by auto

lemma check_signal_cnt_done:
  assumes "check_signal cfg st sg = (r, st')" "flag_done (db st) i ty"
  shows "cnt i ty (emitted st st') = 0"
  unfolding cnt_zero_iff
proof (intro ballI notI)
  fix e assume e: "e \<in> set (emitted st st')"
    and "t_id (ev_signal e) = i \<and> ev_type e = ty"
  with check_signal_events [OF assms(1) e] have "t_id sg = i" "ev_type e = ty" by auto
  with check_signal_fresh [OF assms(1) e] assms(2) show False by simp
qed

lemma check_signal_cnt_settles:
  assumes "check_signal cfg st sg = (r, st')" "0 < cnt i ty (emitted st st')"
    "t_id sg \<in> t_id ` set (db st)"
  shows "settled (db st') i ty"
proof -
  from assms(2) obtain e where e: "e \<in> set (emitted st st')" "t_id (ev_signal e) = i"
    "ev_type e = ty" by (rule cnt_pos_obtain)
  with check_signal_events [OF assms(1) e(1)] have "t_id sg = i" by simp
  with check_signal_settles [OF assms(1) e(1) assms(3)] e(3) show ?thesis by simp
qed

lemma flag_done_mono:
  assumes "\<forall>j k. is_tp_hit tb j k \<longrightarrow> is_tp_hit tb' j k" "flag_done tb i ty"
  shows "flag_done tb' i ty"
  using assms by (cases ty) (simp_all add: flag_done_def)

lemma advance_settled:
  assumes "advance cfg S st st'" "settled (db st) i ty"
  shows "settled (db st') i ty"
proof -
  from assms(1) have ids: "map t_id (db st') = map t_id (db st)"
    and hit: "\<forall>j k. is_tp_hit (db st) j k \<longrightarrow> is_tp_hit (db st') j k"
    and cl: "\<forall>j. all_closed (db st) j \<longrightarrow> all_closed (db st') j"
    by (simp_all add: advance_def)
  from ids have "t_id ` set (db st') = t_id ` set (db st)" by (metis list.set_map)
  with assms(2) cl flag_done_mono [OF hit] show ?thesis
    by (auto simp: settled_def)
qed

lemma advance_flag_done:
  assumes "advance cfg S st st'" "flag_done (db st) i ty"
  shows "flag_done (db st') i ty"
proof -
  from assms(1) have "\<forall>j k. is_tp_hit (db st) j k \<longrightarrow> is_tp_hit (db st') j k"
    by (simp add: advance_def)
  from flag_done_mono [OF this assms(2)] show ?thesis .
qed

lemma advance_cnt_outside:
  assumes "advance cfg S st st'" "i \<notin> t_id ` S"
  shows "cnt i ty (emitted st st') = 0"
  unfolding cnt_zero_iff using assms by (auto simp: advance_def)

lemma advance_idset:
  assumes "advance cfg S st st'"
  shows "t_id ` set (db st') = t_id ` set (db st)"
  using assms by (metis advance_def list.set_map)

lemma advance_emitted_trans:
  assumes "advance cfg S st st1" "advance cfg T st1 st2"
  shows "emitted st st2 = emitted st st1 @ emitted st1 st2"
  using assms by (intro emitted_trans(1)) (simp_all add: advance_def)

lemma check_loop_cnt:
  assumes "check_loop cfg sigs st rs = (r, st')" "distinct (map t_id sigs)"
    "t_id ` set sigs \<subseteq> t_id ` set (db st)"
  shows "cnt i ty (emitted st st') \<le> Suc 0
         \<and> (0 < cnt i ty (emitted st st') \<longrightarrow> settled (db st') i ty)"
  using assms
proof (induction sigs arbitrary: st rs)
  case Nil
  then show ?case by simp
next
  case (Cons sg sigs)
  from Cons.prems(1) show ?case
  proof (cases rule: check_loop_Cons)
    case (abort e)
    then show ?thesis by simp
  next
    case (continue x st1)
    note a1 = check_signal_advance [OF continue(1)]
    note a2 = check_loop_advance [OF continue(2)]
    have em: "emitted st st' = emitted st st1 @ emitted st1 st'"
      by (rule advance_emitted_trans [OF a1 a2])
    have ids1: "t_id ` set (db st1) = t_id ` set (db st)"
      by (rule advance_idset [OF a1])
    from Cons.prems(2) have d: "distinct (map t_id sigs)" and nin: "t_id sg \<notin> t_id ` set sigs"
      by simp_all
    from Cons.prems(3) have sub: "t_id ` set sigs \<subseteq> t_id ` set (db st1)"
      and sgin: "t_id sg \<in> t_id ` set (db st)"
      unfolding ids1 by simp_all
    note IH = Cons.IH [OF continue(2) d sub]
    show ?thesis
    proof (cases "t_id sg = i")
      case True
      with nin have "i \<notin> t_id ` set sigs" by simp
      from advance_cnt_outside [OF a2 this]
      have z: "cnt i ty (emitted st1 st') = 0" .
      have le: "cnt i ty (emitted st st1) \<le> Suc 0"
        by (rule check_signal_cnt_le [OF continue(1)])
      have "0 < cnt i ty (emitted st st1) \<Longrightarrow> settled (db st') i ty"
        using check_signal_cnt_settles [OF continue(1) _ sgin] advance_settled [OF a2]
        by blast
      with z le show ?thesis by (simp add: em cnt_append)
    next
      case False
      from check_signal_cnt_other [OF continue(1) False]
      have "cnt i ty (emitted st st1) = 0" .
      with IH show ?thesis by (simp add: em cnt_append)
    qed
  qed
qed

lemma check_loop_cnt_done:
  assumes "check_loop cfg sigs st rs = (r, st')" "flag_done (db st) i ty"
  shows "cnt i ty (emitted st st') = 0"
  using assms
proof (induction sigs arbitrary: st rs)
  case Nil
  then show ?case by simp
next
  case (Cons sg sigs)
  from Cons.prems(1) show ?case
  proof (cases rule: check_loop_Cons)
    case (abort e)
    then show ?thesis by simp
  next
    case (continue x st1)
    note a1 = check_signal_advance [OF continue(1)]
    note a2 = check_loop_advance [OF continue(2)]
    have em: "emitted st st' = emitted st st1 @ emitted st1 st'"
      by (rule advance_emitted_trans [OF a1 a2])
    from Cons.IH [OF continue(2) advance_flag_done [OF a1 Cons.prems(2)]]
      check_signal_cnt_done [OF continue(1) Cons.prems(2)]
    show ?thesis by (simp add: em cnt_append)
  qed
qed

lemma refresh_simps [simp]:
  "db (refresh ex st) = db st" "notified (refresh ex st) = notified st"
  "emitted (refresh ex st) st' = emitted st st'"
  by (simp_all add: refresh_def emitted_def)

lemma check_all_signals_eq:
  "check_all_signals cfg ex st =
     (if get_open_trades (db st) = [] then (Inr [], st)
      else check_loop cfg (get_open_trades (db st)) (refresh ex st) [])"
  by (simp add: check_all_signals_def refresh_def Let_def)

text \<open>What one check cycle does to the table and to the notifier.\<close>

lemma cycle_advance:
  assumes "check_all_signals cfg ex st = (r, st')"
  shows "notified st' = notified st @ emitted st st'"
    and "map t_id (db st') = map t_id (db st)"
    and "\<forall>j k. is_tp_hit (db st) j k \<longrightarrow> is_tp_hit (db st') j k"
    and "\<forall>j. all_closed (db st) j \<longrightarrow> all_closed (db st') j"
    and "\<forall>e \<in> set (emitted st st'). ev_signal e \<in> set (get_open_trades (db st))
           \<and> stamped cfg (price_cache st') e"
    and "price_cache st' = price_cache st \<or> price_cache st' = price_cache (refresh ex st)"
proof -
  have "notified st' = notified st @ emitted st st'
      \<and> map t_id (db st') = map t_id (db st)
      \<and> (\<forall>j k. is_tp_hit (db st) j k \<longrightarrow> is_tp_hit (db st') j k)
      \<and> (\<forall>j. all_closed (db st) j \<longrightarrow> all_closed (db st') j)
      \<and> (\<forall>e \<in> set (emitted st st'). ev_signal e \<in> set (get_open_trades (db st))
           \<and> stamped cfg (price_cache st') e)
      \<and> (price_cache st' = price_cache st \<or> price_cache st' = price_cache (refresh ex st))"
  proof (cases "get_open_trades (db st) = []")
    case True
    with assms show ?thesis by (simp add: check_all_signals_eq)
  next
    case False
    with assms have "check_loop cfg (get_open_trades (db st)) (refresh ex st) [] = (r, st')"
      by (simp add: check_all_signals_eq)
    from check_loop_advance [OF this] show ?thesis
      by (simp add: advance_def)
  qed
  then show "notified st' = notified st @ emitted st st'"
    and "map t_id (db st') = map t_id (db st)"
    and "\<forall>j k. is_tp_hit (db st) j k \<longrightarrow> is_tp_hit (db st') j k"
    and "\<forall>j. all_closed (db st) j \<longrightarrow> all_closed (db st') j"
    and "\<forall>e \<in> set (emitted st st'). ev_signal e \<in> set (get_open_trades (db st))
           \<and> stamped cfg (price_cache st') e"
    and "price_cache st' = price_cache st \<or> price_cache st' = price_cache (refresh ex st)"
    by blast+
qed

lemma open_not_closed:
  assumes "all_closed tb i"
  shows "i \<notin> t_id ` set (get_open_trades tb)"
  using assms by (auto simp: all_closed_def get_open_trades_def)

lemma cycle_settled_mono:
  assumes "check_all_signals cfg ex st = (r, st')" "settled (db st) i ty"
  shows "settled (db st') i ty"
proof -
  note c = cycle_advance [OF assms(1)]
  from c(2) have "t_id ` set (db st') = t_id ` set (db st)" by (metis list.set_map)
  with assms(2) c(4) flag_done_mono [OF c(3)] show ?thesis
    by (auto simp: settled_def)
qed

lemma cycle_cnt:
  assumes "check_all_signals cfg ex st = (r, st')" "distinct (map t_id (db st))"
  shows "cnt i ty (emitted st st') \<le> Suc 0"
    and "0 < cnt i ty (emitted st st') \<Longrightarrow> settled (db st') i ty"
    and "settled (db st) i ty \<Longrightarrow> cnt i ty (emitted st st') = 0"
proof -
  let ?act = "get_open_trades (db st)"
  have d: "distinct (map t_id ?act)"
    using assms(2) by (simp add: get_open_trades_def distinct_map_filter)
  have sub: "t_id ` set ?act \<subseteq> t_id ` set (db (refresh ex st))"
    by (auto simp: get_open_trades_def)
  show "cnt i ty (emitted st st') \<le> Suc 0"
  proof (cases "?act = []")
    case True
    with assms(1) show ?thesis by (simp add: check_all_signals_eq)
  next
    case False
    with assms(1) have "check_loop cfg ?act (refresh ex st) [] = (r, st')"
      by (simp add: check_all_signals_eq)
    from check_loop_cnt [OF this d sub, of i ty] show ?thesis by simp
  qed
  show "settled (db st') i ty" if "0 < cnt i ty (emitted st st')"
  proof (cases "?act = []")
    case True
    with assms(1) that show ?thesis by (simp add: check_all_signals_eq)
  next
    case False
    with assms(1) have "check_loop cfg ?act (refresh ex st) [] = (r, st')"
      by (simp add: check_all_signals_eq)
    from check_loop_cnt [OF this d sub, of i ty] that show ?thesis by simp
  qed
  show "cnt i ty (emitted st st') = 0" if s: "settled (db st) i ty"
  proof (cases "?act = []")
    case True
    with assms(1) show ?thesis by (simp add: check_all_signals_eq)
  next
    case False
    with assms(1) have cl: "check_loop cfg ?act (refresh ex st) [] = (r, st')"
      by (simp add: check_all_signals_eq)
    from s consider "all_closed (db st) i" | "flag_done (db st) i ty"
      by (auto simp: settled_def)
    then show ?thesis
    proof cases
      case 1
      from advance_cnt_outside [OF check_loop_advance [OF cl] open_not_closed [OF 1]]
      show ?thesis by simp
    next
      case 2
      then have "flag_done (db (refresh ex st)) i ty" by simp
      from check_loop_cnt_done [OF cl this] show ?thesis by simp
    qed
  qed
qed

lemma foldr_max_ge: "x \<in> set xs \<Longrightarrow> x \<le> foldr max xs (0::nat)"
  by (induction xs) (auto simp: max_def)

lemma next_id_fresh: "next_id tb \<notin> t_id ` set tb"
proof
  assume "next_id tb \<in> t_id ` set tb"
  then have "next_id tb \<in> set (map t_id tb)" by simp
  from foldr_max_ge [OF this] show False by (simp add: next_id_def)
qed

lemma open_trade_eq:
  "snd (open_trade tb smb sd ea eb sl p1 p2 p3) =
     tb @ [\<lparr> t_id = next_id tb, t_symbol = smb, t_side = sd, t_entry_a = ea, t_entry_b = eb,
              t_stop = sl, t_tp1 = p1, t_tp2 = p2, t_tp3 = p3, t_status = OPEN,
              t_pnl = None, tp1_hit = False, tp2_hit = False, tp3_hit = False \<rparr>]"
  by (simp add: open_trade_def Let_def)

lemma all_closed_snoc:
  "all_closed (tb @ [t]) i \<longleftrightarrow> all_closed tb i \<and> (t_id t = i \<longrightarrow> t_status t = CLOSED)"
  by (auto simp: all_closed_def)

lemma find_snoc_Some:
  "find P xs = Some u \<Longrightarrow> find P (xs @ ys) = Some u"
  by (induction xs) (auto split: if_splits)

lemma is_tp_hit_snoc:
  assumes "i \<in> t_id ` set tb"
  shows "is_tp_hit (tb @ [t]) i k = is_tp_hit tb i k"
proof -
  from assms have "find (\<lambda>t. t_id t = i) tb \<noteq> None"
    using find_None_ids [of i tb] by simp
  then obtain u where "find (\<lambda>t. t_id t = i) tb = Some u" by blast
  from this find_snoc_Some [OF this, of "[t]"] show ?thesis by (simp add: is_tp_hit_def)
qed

lemma step_open:
  "step cfg st (Open sig) =
     st \<lparr> db := db st @ [\<lparr> t_id = next_id (db st), t_symbol = symbol sig, t_side = side sig,
              t_entry_a = entry_a sig, t_entry_b = entry_b sig, t_stop = stop sig,
              t_tp1 = tp1 sig, t_tp2 = tp2 sig, t_tp3 = tp3 sig, t_status = OPEN,
              t_pnl = None, tp1_hit = False, tp2_hit = False, tp3_hit = False \<rparr>] \<rparr>"
  by (simp add: step_def open_trade_eq)

lemma step_check: "step cfg st (Check ex) = snd (check_all_signals cfg ex st)"
  by (simp add: step_def)

lemma step_open_settled:
  assumes "settled (db st) i ty"
  shows "settled (db (step cfg st (Open sig))) i ty"
proof -
  from assms have i: "i \<in> t_id ` set (db st)" by (simp add: settled_def)
  with next_id_fresh [of "db st"] have ne: "next_id (db st) \<noteq> i" by auto
  from assms show ?thesis
    unfolding step_open
    by (cases ty) (auto simp: settled_def flag_done_def all_closed_snoc is_tp_hit_snoc [OF i] ne)
qed

lemma step_open_closed:
  assumes "i \<in> t_id ` set (db st)" "all_closed (db st) i"
  shows "all_closed (db (step cfg st (Open sig))) i"
    and "i \<in> t_id ` set (db (step cfg st (Open sig)))"
proof -
  from assms(1) next_id_fresh [of "db st"] have ne: "next_id (db st) \<noteq> i" by auto
  with assms show "all_closed (db (step cfg st (Open sig))) i"
    and "i \<in> t_id ` set (db (step cfg st (Open sig)))"
    unfolding step_open by (simp_all add: all_closed_snoc)
qed

lemma step_open_distinct:
  assumes "distinct (map t_id (db st))"
  shows "distinct (map t_id (db (step cfg st (Open sig))))"
  using assms next_id_fresh [of "db st"] unfolding step_open by simp

lemma step_check_distinct:
  assumes "distinct (map t_id (db st))"
  shows "distinct (map t_id (db (step cfg st (Check ex))))"
proof -
  obtain r st' where c: "check_all_signals cfg ex st = (r, st')"
    by (cases "check_all_signals cfg ex st")
  from cycle_advance(2) [OF c] assms show ?thesis by (simp add: step_check c)
qed

lemma step_once:
  assumes "once i ty st"
  shows "once i ty (step cfg st a)"
proof (cases a)
  case (Open sig)
  from assms have "notified (step cfg st (Open sig)) = notified st" by (simp add: step_open)
  with assms step_open_distinct [of st cfg sig] step_open_settled [of st i ty cfg sig]
  show ?thesis unfolding Open once_def by simp
next
  case (Check ex)
  obtain r st' where c: "check_all_signals cfg ex st = (r, st')"
    by (cases "check_all_signals cfg ex st")
  from assms have d: "distinct (map t_id (db st))" by (simp add: once_def)
  note n = cycle_advance(1) [OF c]
  note cc = cycle_cnt [OF c d, of i ty]
  have st': "step cfg st a = st'" by (simp add: Check step_check c)
  have d': "distinct (map t_id (db st'))"
    using step_check_distinct [OF d, of cfg ex] by (simp add: step_check c)
  show ?thesis
  proof (cases "0 < cnt i ty (notified st)")
    case True
    with assms have s: "settled (db st) i ty" by (simp add: once_def)
    from cc(3) [OF s] have "cnt i ty (notified st') = cnt i ty (notified st)"
      by (simp add: n cnt_append)
    with assms d' cycle_settled_mono [OF c s] show ?thesis
      unfolding st' once_def by simp
  next
    case False
    then have "cnt i ty (notified st') = cnt i ty (emitted st st')"
      by (simp add: n cnt_append)
    with cc(1) cc(2) d' show ?thesis unfolding st' once_def by simp
  qed
qed

lemma run_once: "once i ty st \<Longrightarrow> once i ty (run cfg st as)"
  by (induction as arbitrary: st) (simp_all add: step_once)

lemma cycle_results_subset:
  assumes "check_all_signals cfg ex st = (Inr rs, st')"
  shows "set rs \<subseteq> set (emitted st st')"
proof (cases "get_open_trades (db st) = []")
  case True
  with assms show ?thesis by (simp add: check_all_signals_eq)
next
  case False
  with assms have "check_loop cfg (get_open_trades (db st)) (refresh ex st) [] = (Inr rs, st')"
    by (simp add: check_all_signals_eq)
  from check_loop_groups [OF this] obtain groups where
    g: "emitted st st' = concat groups" "rs = concat (map (take 1) groups)"
    by auto
  have "set (take 1 x) \<subseteq> set x" for x :: "event list" by (rule set_take_subset)
  then show ?thesis unfolding g by auto
qed

lemma cycle_closed_silent:
  assumes "check_all_signals cfg ex st = (r, st')" "all_closed (db st) i"
  shows "\<forall>e \<in> set (emitted st st'). t_id (ev_signal e) \<noteq> i"
  using cycle_advance(5) [OF assms(1)] open_not_closed [OF assms(2)] by auto

lemma step_closed:
  assumes "i \<in> t_id ` set (db st)" "all_closed (db st) i"
  shows "i \<in> t_id ` set (db (step cfg st a))"
    and "all_closed (db (step cfg st a)) i"
    and "filter (\<lambda>e. t_id (ev_signal e) = i) (notified (step cfg st a))
           = filter (\<lambda>e. t_id (ev_signal e) = i) (notified st)"
proof -
  have "i \<in> t_id ` set (db (step cfg st a)) \<and> all_closed (db (step cfg st a)) i
      \<and> filter (\<lambda>e. t_id (ev_signal e) = i) (notified (step cfg st a))
           = filter (\<lambda>e. t_id (ev_signal e) = i) (notified st)"
  proof (cases a)
    case (Open sig)
    have "notified (step cfg st (Open sig)) = notified st" by (simp add: step_open)
    with step_open_closed [OF assms, of cfg sig] show ?thesis unfolding Open by simp
  next
    case (Check ex)
    obtain r st' where c: "check_all_signals cfg ex st = (r, st')"
      by (cases "check_all_signals cfg ex st")
    have st': "step cfg st a = st'" by (simp add: Check step_check c)
    note adv = cycle_advance [OF c]
    from adv(2) have "t_id ` set (db st') = t_id ` set (db st)" by (metis list.set_map)
    moreover from cycle_closed_silent [OF c assms(2)]
    have "filter (\<lambda>e. t_id (ev_signal e) = i) (emitted st st') = []"
      by (simp add: filter_empty_conv)
    ultimately show ?thesis
      unfolding st' using assms adv(4) by (simp add: adv(1))
  qed
  then show "i \<in> t_id ` set (db (step cfg st a))"
    and "all_closed (db (step cfg st a)) i"
    and "filter (\<lambda>e. t_id (ev_signal e) = i) (notified (step cfg st a))
           = filter (\<lambda>e. t_id (ev_signal e) = i) (notified st)"
    by blast+
qed

lemma run_closed:
  assumes "i \<in> t_id ` set (db st)" "all_closed (db st) i"
  shows "i \<in> t_id ` set (db (run cfg st as)) \<and> all_closed (db (run cfg st as)) i
      \<and> filter (\<lambda>e. t_id (ev_signal e) = i) (notified (run cfg st as))
           = filter (\<lambda>e. t_id (ev_signal e) = i) (notified st)"
  using assms
proof (induction as arbitrary: st)
  case Nil
  then show ?case by simp
next
  case (Cons a as)
  note s = step_closed [OF Cons.prems, of cfg a]
  from Cons.IH [OF s(1) s(2)] s(3) show ?case by simp
qed

lemma update_prices_pos:
  "cache_pos cache \<Longrightarrow> cache_pos (update_prices ex symbols cache)"
proof (induction symbols arbitrary: cache)
  case Nil
  then show ?case by simp
next
  case (Cons smb symbols)
  have "cache_pos (if get_current_price ex smb > 0
                   then cache(smb \<mapsto> get_current_price ex smb) else cache)"
    using Cons.prems by (auto simp: cache_pos_def)
  from Cons.IH [OF this] show ?case by (simp add: Let_def)
qed

lemma refresh_pos: "cache_pos (price_cache st) \<Longrightarrow> cache_pos (price_cache (refresh ex st))"
  by (simp add: refresh_def update_prices_pos)

lemma stamped_pos: "stamped cfg cache e \<Longrightarrow> cache_pos cache \<Longrightarrow> 0 < hit_price e"
  by (auto simp: stamped_def cache_pos_def)

lemma stamped_pnl_ok: "stamped cfg cache e \<Longrightarrow> pnl_ok cfg e"
  by (simp add: stamped_def pnl_ok_def weighted_def pnl_value_def Let_def)

lemma step_priced:
  assumes "priced cfg st"
  shows "priced cfg (step cfg st a)"
proof (cases a)
  case (Open sig)
  with assms show ?thesis by (simp add: step_open priced_def)
next
  case (Check ex)
  obtain r st' where c: "check_all_signals cfg ex st = (r, st')"
    by (cases "check_all_signals cfg ex st")
  have st': "step cfg st a = st'" by (simp add: Check step_check c)
  note adv = cycle_advance [OF c]
  from assms have cp: "cache_pos (price_cache st)" by (simp add: priced_def)
  with adv(6) refresh_pos [OF cp, of ex] have cp': "cache_pos (price_cache st')" by auto
  have "\<forall>e \<in> set (emitted st st'). 0 < hit_price e \<and> pnl_ok cfg e"
    using adv(5) stamped_pos [OF _ cp'] stamped_pnl_ok by blast
  with assms cp' show ?thesis unfolding st' priced_def by (auto simp: adv(1))
qed

lemma run_priced: "priced cfg st \<Longrightarrow> priced cfg (run cfg st as)"
  by (induction as arbitrary: st) (simp_all add: step_priced)

lemma init_priced: "priced cfg (init_tracker tb)"
  by (simp add: priced_def init_tracker_def cache_pos_def)

lemma init_once: "distinct (map t_id tb) \<Longrightarrow> once i ty (init_tracker tb)"
  by (simp add: once_def init_tracker_def)

lemma check_signal_closed:
  "check_signal cfg st sg =
     (case price_cache st (t_symbol sg) of
        None \<Rightarrow> (Inr None, st)
      | Some cp \<Rightarrow>
          if cp = 0 then (Inr None, st)
          else if stop_reached sg cp then
            (if weighted cfg sg = 0 then (Inl ZeroDivisionError, st)
             else (Inr (Some (mk_event cfg STOP_LOSS sg cp)),
                   st \<lparr> db := close_trade (db st) (t_id sg)
                                 (pnl_value sg (weighted cfg sg) (t_stop sg)),
                        notified := notified st @ [mk_event cfg STOP_LOSS sg cp] \<rparr>))
          else if weighted cfg sg = 0 then
            (if tp_events cfg (db st) sg cp = [] then (Inr None, st)
             else (Inl ZeroDivisionError, st))
          else (Inr (case tp_events cfg (db st) sg cp of [] \<Rightarrow> None | r # _ \<Rightarrow> Some r),
                st \<lparr> db := tp_db cfg (db st) sg cp,
                     notified := notified st @ tp_events cfg (db st) sg cp \<rparr>))"
proof (cases "price_cache st (t_symbol sg)")
  case None
  then show ?thesis by (simp add: check_signal_skip)
next
  case (Some cp)
  show ?thesis
  proof (cases "cp = 0")
    case True
    with Some show ?thesis by (simp add: check_signal_skip)
  next
    case nz: False
    show ?thesis
    proof (cases "stop_reached sg cp")
      case sr: True
      show ?thesis
      proof (cases "weighted cfg sg = 0")
        case True
        from check_signal_stop_zero [OF Some nz sr True] Some nz sr True
        show ?thesis by simp
      next
        case False
        from check_signal_stop [OF Some nz sr False] Some nz sr False
        show ?thesis by simp
      qed
    next
      case sr: False
      show ?thesis
      proof (cases "weighted cfg sg = 0")
        case True
        from check_signal_tp_zero [OF Some nz sr True] Some nz sr True
        show ?thesis by simp
      next
        case False
        from check_signal_tp [OF Some nz sr False] Some nz sr False
        show ?thesis by simp
      qed
    qed
  qed
qed

lemma pos_a_sel:
  "t_id pos_a = 1" "t_symbol pos_a = ''BTCUSDT''" "t_side pos_a = LONG" "t_entry_a pos_a = 100"
  "t_entry_b pos_a = Some 98" "t_stop pos_a = 95" "t_tp1 pos_a = 105" "t_tp2 pos_a = 110"
  "t_tp3 pos_a = 120" "t_status pos_a = OPEN" "t_pnl pos_a = None" "\<not> tp1_hit pos_a"
  "\<not> tp2_hit pos_a" "\<not> tp3_hit pos_a"
  by (simp_all add: pos_a_def)

lemma pos_a_weighted: "weighted ex_cfg pos_a = 99.4"
  by (simp add: weighted_def calculate_weighted_entry_def pos_a_sel ex_cfg_sel)

lemma refresh_single:
  assumes "get_open_trades (db st) = [sg]"
  shows "price_cache (refresh ex st) =
           (if get_current_price ex (t_symbol sg) > 0
            then (price_cache st)(t_symbol sg \<mapsto> get_current_price ex (t_symbol sg))
            else price_cache st)"
  by (simp add: refresh_def assms Let_def)

lemma cycle_single:
  assumes "get_open_trades (db st) = [sg]"
  shows "check_all_signals cfg ex st =
     (case check_signal cfg (refresh ex st) sg of
        (Inl e, st') \<Rightarrow> (Inl e, st')
      | (Inr x, st') \<Rightarrow> (Inr (case x of None \<Rightarrow> [] | Some r \<Rightarrow> [r]), st'))"
  by (simp add: check_all_signals_eq assms split: prod.splits sum.splits option.splits)

lemma pos_a_hits:
  "is_tp_hit [pos_a] (Suc 0) k = False"
  "is_tp_hit [pos_a \<lparr> tp1_hit := True \<rparr>] (Suc 0) k = (k = Suc 0)"
  by (auto simp: is_tp_hit_def get_hit_def pos_a_sel)

lemma pos_a_events:
  "mk_event ex_cfg TP1 pos_a 105 = ev_a"
  by (simp add: mk_event_def ev_a_def pos_a_weighted exit_level_def pnl_value_def pos_a_sel)

lemma pos_a_tp_events_105: "tp_events ex_cfg [pos_a] pos_a 105 = [ev_a]"
  by (simp add: tp_events_def fires_def reached_def exit_level_def pos_a_sel pos_a_hits
      pos_a_events)

lemma pos_a_tp_db_105: "tp_db ex_cfg [pos_a] pos_a 105 = [pos_a \<lparr> tp1_hit := True \<rparr>]"
  by (simp add: tp_db_def fires_def reached_def exit_level_def pos_a_sel pos_a_hits
      mark_tp_hit_def update_where_def set_hit_def Let_def)

lemma init_open: "get_open_trades (db (init_tracker [pos_a])) = [pos_a]"
  by (simp add: init_tracker_def get_open_trades_def pos_a_sel)

lemma scenario_a:
  "check_all_signals ex_cfg (quote 105) (init_tracker [pos_a]) = (Inr [ev_a], st_a)"
proof -
  have c: "price_cache (refresh (quote 105) (init_tracker [pos_a])) = [''BTCUSDT'' \<mapsto> 105]"
    unfolding refresh_single [OF init_open]
    by (simp add: get_current_price_def quote_def pos_a_sel init_tracker_def)
  have d: "db (refresh (quote 105) (init_tracker [pos_a])) = [pos_a]"
    "notified (refresh (quote 105) (init_tracker [pos_a])) = []"
    by (simp_all add: init_tracker_def)
  have r: "refresh (quote 105) (init_tracker [pos_a])
             = \<lparr> db = [pos_a], price_cache = [''BTCUSDT'' \<mapsto> 105], notified = [] \<rparr>"
    using c d by (cases "refresh (quote 105) (init_tracker [pos_a])") simp
  have s: "\<not> stop_reached pos_a 105" by (simp add: stop_reached_def pos_a_sel)
  have "check_signal ex_cfg (refresh (quote 105) (init_tracker [pos_a])) pos_a
          = (Inr (Some ev_a), st_a)"
    unfolding check_signal_closed r
    by (simp add: pos_a_sel s pos_a_weighted pos_a_tp_events_105 pos_a_tp_db_105 st_a_def)
  then show ?thesis by (simp add: cycle_single [OF init_open])
qed

lemma pos_a1_sel:
  "t_id pos_a1 = 1" "t_symbol pos_a1 = ''BTCUSDT''" "t_side pos_a1 = LONG"
  "t_entry_a pos_a1 = 100" "t_entry_b pos_a1 = Some 98" "t_stop pos_a1 = 95"
  "t_tp1 pos_a1 = 105" "t_tp2 pos_a1 = 110" "t_tp3 pos_a1 = 120" "t_status pos_a1 = OPEN"
  "t_pnl pos_a1 = None" "tp1_hit pos_a1" "\<not> tp2_hit pos_a1" "\<not> tp3_hit pos_a1"
  by (simp_all add: pos_a1_def pos_a_sel)

lemma pos_a1_weighted: "weighted ex_cfg pos_a1 = 99.4"
  by (simp add: weighted_def calculate_weighted_entry_def pos_a1_sel ex_cfg_sel)

lemma st_a_alt: "st_a = \<lparr> db = [pos_a1], price_cache = [''BTCUSDT'' \<mapsto> 105], notified = [ev_a] \<rparr>"
  by (simp add: st_a_def pos_a1_def)

lemma st_a_open: "get_open_trades (db st_a) = [pos_a1]"
  by (simp add: st_a_alt get_open_trades_def pos_a1_sel)

lemma pos_a1_hits: "is_tp_hit [pos_a1] (Suc 0) k = (k = Suc 0)"
  by (auto simp: is_tp_hit_def get_hit_def pos_a1_sel)

lemma scenario_b:
  "check_all_signals ex_cfg (quote 94) st_a = (Inr [ev_b], st_b)"
proof -
  have c: "price_cache (refresh (quote 94) st_a) = [''BTCUSDT'' \<mapsto> 94]"
    unfolding refresh_single [OF st_a_open]
    by (simp add: get_current_price_def quote_def pos_a1_sel st_a_alt)
  have d: "db (refresh (quote 94) st_a) = [pos_a1]"
    "notified (refresh (quote 94) st_a) = [ev_a]"
    by (simp_all add: st_a_alt)
  have r: "refresh (quote 94) st_a
             = \<lparr> db = [pos_a1], price_cache = [''BTCUSDT'' \<mapsto> 94], notified = [ev_a] \<rparr>"
    using c d by (cases "refresh (quote 94) st_a") simp
  have s: "stop_reached pos_a1 94" by (simp add: stop_reached_def pos_a1_sel)
  have e: "mk_event ex_cfg STOP_LOSS pos_a1 94 = ev_b"
    by (simp add: mk_event_def ev_b_def pos_a1_weighted exit_level_def pnl_value_def pos_a1_sel)
  have "check_signal ex_cfg (refresh (quote 94) st_a) pos_a1 = (Inr (Some ev_b), st_b)"
    unfolding check_signal_closed r
    by (simp add: pos_a1_sel s pos_a1_weighted e st_b_def close_trade_def update_where_def
        pnl_value_def)
  then show ?thesis by (simp add: cycle_single [OF st_a_open])
qed

lemma scenario_a_again:
  "check_all_signals ex_cfg (quote 105) st_a = (Inr [], st_a)"
proof -
  have c: "price_cache (refresh (quote 105) st_a) = [''BTCUSDT'' \<mapsto> 105]"
    unfolding refresh_single [OF st_a_open]
    by (simp add: get_current_price_def quote_def pos_a1_sel st_a_alt)
  have d: "db (refresh (quote 105) st_a) = [pos_a1]"
    "notified (refresh (quote 105) st_a) = [ev_a]"
    by (simp_all add: st_a_alt)
  have "refresh (quote 105) st_a = st_a \<lparr> price_cache := price_cache (refresh (quote 105) st_a) \<rparr>"
    by (simp add: refresh_def)
  then have r: "refresh (quote 105) st_a = st_a"
    unfolding c by (simp add: st_a_alt)
  have s: "\<not> stop_reached pos_a1 105" by (simp add: stop_reached_def pos_a1_sel)
  have t: "tp_events ex_cfg [pos_a1] pos_a1 105 = []"
    by (simp add: tp_events_def fires_def reached_def exit_level_def pos_a1_sel pos_a1_hits)
  have u: "tp_db ex_cfg [pos_a1] pos_a1 105 = [pos_a1]"
    by (simp add: tp_db_def fires_def reached_def exit_level_def pos_a1_sel pos_a1_hits Let_def)
  have "check_signal ex_cfg st_a pos_a1 = (Inr None, st_a)"
    unfolding check_signal_closed
    by (simp add: st_a_alt pos_a1_sel s pos_a1_weighted t u)
  then show ?thesis by (simp add: cycle_single [OF st_a_open] r)
qed

lemma pos_a_events_121:
  "mk_event ex_cfg TP1 pos_a 121 = ev_1" "mk_event ex_cfg TP2 pos_a 121 = ev_2"
  "mk_event ex_cfg TP3_FULL pos_a 121 = ev_3"
  by (simp_all add: mk_event_def ev_1_def ev_2_def ev_3_def pos_a_weighted exit_level_def
      pnl_value_def pos_a_sel)

lemma pos_a_tp_events_121: "tp_events ex_cfg [pos_a] pos_a 121 = [ev_1, ev_2, ev_3]"
  by (simp add: tp_events_def fires_def reached_def exit_level_def pos_a_sel pos_a_hits
      pos_a_events_121)

lemma pos_a_tp_db_121:
  "tp_db ex_cfg [pos_a] pos_a 121 =
     [pos_a \<lparr> t_status := CLOSED, t_pnl := Some ((120 - 99.4) / 99.4 * 100),
              tp1_hit := True, tp2_hit := True, tp3_hit := True \<rparr>]"
  by (simp add: tp_db_def fires_def reached_def exit_level_def pos_a_sel pos_a_hits
      mark_tp_hit_def close_trade_def update_where_def set_hit_def Let_def pnl_value_def
      pos_a_weighted)

lemma scenario_three:
  "check_all_signals ex_cfg (quote 121) (init_tracker [pos_a]) = (Inr [ev_1], st_3)"
proof -
  have c: "price_cache (refresh (quote 121) (init_tracker [pos_a])) = [''BTCUSDT'' \<mapsto> 121]"
    unfolding refresh_single [OF init_open]
    by (simp add: get_current_price_def quote_def pos_a_sel init_tracker_def)
  have d: "db (refresh (quote 121) (init_tracker [pos_a])) = [pos_a]"
    "notified (refresh (quote 121) (init_tracker [pos_a])) = []"
    by (simp_all add: init_tracker_def)
  have r: "refresh (quote 121) (init_tracker [pos_a])
             = \<lparr> db = [pos_a], price_cache = [''BTCUSDT'' \<mapsto> 121], notified = [] \<rparr>"
    using c d by (cases "refresh (quote 121) (init_tracker [pos_a])") simp
  have s: "\<not> stop_reached pos_a 121" by (simp add: stop_reached_def pos_a_sel)
  have "check_signal ex_cfg (refresh (quote 121) (init_tracker [pos_a])) pos_a
          = (Inr (Some ev_1), st_3)"
    unfolding check_signal_closed r
    by (simp add: pos_a_sel s pos_a_weighted pos_a_tp_events_121 pos_a_tp_db_121 st_3_def)
  then show ?thesis by (simp add: cycle_single [OF init_open])
qed

lemma is_tp_hit_present: "is_tp_hit tb i k \<Longrightarrow> i \<in> t_id ` set tb"
  using find_None_ids [of i tb]
  by (cases "find (\<lambda>t. t_id t = i) tb") (auto simp: is_tp_hit_def split: if_splits)

lemma step_hit_mono:
  assumes "is_tp_hit (db st) i k"
  shows "is_tp_hit (db (step cfg st a)) i k"
proof (cases a)
  case (Open sig)
  from is_tp_hit_snoc [OF is_tp_hit_present [OF assms]] assms
  show ?thesis unfolding Open step_open by simp
next
  case (Check ex)
  obtain r st' where c: "check_all_signals cfg ex st = (r, st')"
    by (cases "check_all_signals cfg ex st")
  from cycle_advance(3) [OF c] assms show ?thesis
    by (simp add: Check step_check c)
qed

lemma run_hit_mono: "is_tp_hit (db st) i k \<Longrightarrow> is_tp_hit (db (run cfg st as)) i k"
  by (induction as arbitrary: st) (simp_all add: step_hit_mono)

lemma run_Cons_check:
  "check_all_signals cfg ex st = (r, st') \<Longrightarrow> run cfg st (Check ex # as) = run cfg st' as"
  by (simp add: step_check)

lemma pos_n_sel:
  "t_id pos_n = 2" "t_symbol pos_n = ''BTCUSDT''" "t_side pos_n = LONG" "t_entry_a pos_n = 104"
  "t_entry_b pos_n = None" "t_stop pos_n = 101" "t_tp1 pos_n = 108" "t_tp2 pos_n = 110"
  "t_tp3 pos_n = 114" "t_status pos_n = OPEN" "t_pnl pos_n = None" "\<not> tp1_hit pos_n"
  "\<not> tp2_hit pos_n" "\<not> tp3_hit pos_n"
  by (simp_all add: pos_n_def)

lemma pos_n_weighted: "weighted ex_cfg pos_n = 104"
  by (simp add: weighted_def calculate_weighted_entry_def pos_n_sel)

lemma quiet_100:
  assumes "tb = [pos_a] \<or> tb = [pos_a, pos_n]"
  shows "tp_events ex_cfg tb pos_a 100 = []" "tp_db ex_cfg tb pos_a 100 = tb"
  using assms
  by (auto simp: tp_events_def tp_db_def fires_def reached_def exit_level_def pos_a_sel Let_def)

lemma scenario_quiet:
  "check_all_signals ex_cfg (quote 100) (init_tracker [pos_a]) = (Inr [], st_c)"
proof -
  have c: "price_cache (refresh (quote 100) (init_tracker [pos_a])) = [''BTCUSDT'' \<mapsto> 100]"
    unfolding refresh_single [OF init_open]
    by (simp add: get_current_price_def quote_def pos_a_sel init_tracker_def)
  have "refresh (quote 100) (init_tracker [pos_a])
          = init_tracker [pos_a] \<lparr> price_cache := price_cache (refresh (quote 100) (init_tracker [pos_a])) \<rparr>"
    by (simp add: refresh_def)
  then have r: "refresh (quote 100) (init_tracker [pos_a]) = st_c"
    unfolding c by (simp add: init_tracker_def st_c_def)
  have s: "\<not> stop_reached pos_a 100" by (simp add: stop_reached_def pos_a_sel)
  have "check_signal ex_cfg st_c pos_a = (Inr None, st_c)"
    unfolding check_signal_closed
    by (simp add: st_c_def pos_a_sel s pos_a_weighted quiet_100)
  then show ?thesis by (simp add: cycle_single [OF init_open] r)
qed

lemma open_new: "step ex_cfg st_c (Open sig_new) = st_d"
  by (simp add: step_open st_c_def st_d_def sig_new_def pos_n_def next_id_def pos_a_sel)

lemma stale_run: "run ex_cfg (init_tracker [pos_a]) [Check (quote 100), Open sig_new] = st_d"
  using run_Cons_check [OF scenario_quiet, of "[Open sig_new]"] open_new by simp

lemma stale_refresh: "refresh no_quote st_d = st_d"
proof -
  have "get_open_trades (db st_d) = [pos_a, pos_n]"
    by (simp add: st_d_def get_open_trades_def pos_a_sel pos_n_sel)
  then have "price_cache (refresh no_quote st_d) = price_cache st_d"
    by (simp add: refresh_def pos_a_sel pos_n_sel get_current_price_def no_quote_def Let_def)
  moreover have "refresh no_quote st_d = st_d \<lparr> price_cache := price_cache (refresh no_quote st_d) \<rparr>"
    by (simp add: refresh_def)
  ultimately show ?thesis by simp
qed

lemma stale_cycle: "check_all_signals ex_cfg no_quote st_d = (Inr [ev_stale], st_e)"
proof -
  have o: "get_open_trades (db st_d) = [pos_a, pos_n]"
    by (simp add: st_d_def get_open_trades_def pos_a_sel pos_n_sel)
  have s: "\<not> stop_reached pos_a 100" "stop_reached pos_n 100"
    by (simp_all add: stop_reached_def pos_a_sel pos_n_sel)
  have a: "check_signal ex_cfg st_d pos_a = (Inr None, st_d)"
    unfolding check_signal_closed
    by (simp add: st_d_def pos_a_sel s pos_a_weighted quiet_100)
  have e: "mk_event ex_cfg STOP_LOSS pos_n 100 = ev_stale"
    by (simp add: mk_event_def ev_stale_def pos_n_weighted exit_level_def pnl_value_def pos_n_sel)
  have b: "check_signal ex_cfg st_d pos_n = (Inr (Some ev_stale), st_e)"
    unfolding check_signal_closed
    by (simp add: st_d_def st_e_def pos_n_sel pos_a_sel s pos_n_weighted e close_trade_def
        update_where_def pnl_value_def)
  show ?thesis
    unfolding check_all_signals_eq o stale_refresh
    by (simp add: a b)
qed

lemma only_ids_refl: "only_ids I tb tb"
  by (simp add: only_ids_def list_all2_same)

lemma only_ids_trans:
  assumes "only_ids I tb tb1" "only_ids J tb1 tb2"
  shows "only_ids (I \<union> J) tb tb2"
proof -
  have "list_all2 (\<lambda>t t'. t_id t' = t_id t \<and> t_symbol t' = t_symbol t
                     \<and> (t_id t \<notin> I \<union> J \<longrightarrow> t' = t)) tb tb2"
    using assms [unfolded only_ids_def]
    by (rule list_all2_trans [rotated]) auto
  then show ?thesis by (simp add: only_ids_def)
qed

lemma only_ids_mono: "only_ids I tb tb' \<Longrightarrow> I \<subseteq> J \<Longrightarrow> only_ids J tb tb'"
  unfolding only_ids_def by (erule list_all2_mono) auto

lemma only_ids_update_where:
  assumes "\<And>t. t_id (f t) = t_id t" "\<And>t. t_symbol (f t) = t_symbol t"
  shows "only_ids {i} tb (update_where i f tb)"
  unfolding only_ids_def update_where_def
  by (induction tb) (simp_all add: assms)

lemma only_ids_close_trade: "only_ids {i} tb (close_trade tb i pnl)"
  unfolding close_trade_def by (rule only_ids_update_where) simp_all

lemma only_ids_mark_tp_hit: "only_ids {i} tb (mark_tp_hit tb i l)"
proof (cases "l \<in> {1, 2, 3}")
  case True
  have "only_ids {i} tb (update_where i (set_hit l) tb)"
    by (rule only_ids_update_where) (simp_all add: set_hit_def)
  with True show ?thesis by (simp add: mark_tp_hit_def)
next
  case False
  then show ?thesis by (simp add: mark_tp_hit_def only_ids_refl)
qed

lemma only_ids_tp_db: "only_ids {t_id sg} tb (tp_db cfg tb sg cp)"
proof -
  let ?i = "t_id sg"
  define d1 where "d1 = (if fires tb sg cp TP1 then mark_tp_hit tb ?i 1 else tb)"
  define d2 where "d2 = (if fires tb sg cp TP2 then mark_tp_hit d1 ?i 2 else d1)"
  have 1: "only_ids {?i} tb d1"
    by (simp add: d1_def only_ids_mark_tp_hit only_ids_refl)
  have "only_ids {?i} d1 d2"
    by (simp add: d2_def only_ids_mark_tp_hit only_ids_refl)
  from only_ids_trans [OF 1 this] have 2: "only_ids {?i} tb d2" by simp
  have "only_ids ({?i} \<union> {?i}) d2 (close_trade (mark_tp_hit d2 ?i 3) ?i x)" for x
    by (rule only_ids_trans [OF only_ids_mark_tp_hit only_ids_close_trade])
  then have "only_ids {?i} d2 (close_trade (mark_tp_hit d2 ?i 3) ?i x)" for x
    by simp
  from only_ids_trans [OF 2 this] have 3: "only_ids {?i} tb (close_trade (mark_tp_hit d2 ?i 3) ?i x)" for x
    by simp
  show ?thesis
    unfolding tp_db_def Let_def d1_def [symmetric] d2_def [symmetric]
    using 2 3 by simp
qed

lemma priced_ids_single:
  "cache (t_symbol sg) = Some cp \<Longrightarrow> priced_ids cache [sg] = {t_id sg}"
  by (auto simp: priced_ids_def)

lemma check_signal_only_ids:
  assumes "check_signal cfg st sg = (r, st')"
  shows "only_ids (priced_ids (price_cache st) [sg]) (db st) (db st')"
proof (cases rule: check_signal_cases [of cfg st sg])
  case idle
  with assms show ?thesis by (simp add: only_ids_refl)
next
  case error
  with assms show ?thesis by (simp add: only_ids_refl)
next
  case (stop cp)
  with assms have "db st' = close_trade (db st) (t_id sg) (pnl_value sg (weighted cfg sg) (t_stop sg))"
    by auto
  with only_ids_close_trade show ?thesis by (simp add: priced_ids_single [where cache = "price_cache st", OF stop(1)])
next
  case (tp cp)
  with assms have "db st' = tp_db cfg (db st) sg cp" by auto
  with only_ids_tp_db show ?thesis by (simp add: priced_ids_single [where cache = "price_cache st", OF tp(1)])
qed

lemma priced_ids_Cons:
  "priced_ids cache (sg # sigs) = priced_ids cache [sg] \<union> priced_ids cache sigs"
  by (auto simp: priced_ids_def)

lemma check_loop_only_ids:
  "check_loop cfg sigs st rs = (r, st') \<Longrightarrow>
     only_ids (priced_ids (price_cache st) sigs) (db st) (db st')"
proof (induction sigs arbitrary: st rs)
  case Nil
  then show ?case by (simp add: only_ids_refl)
next
  case (Cons sg sigs)
  from Cons.prems show ?case
  proof (cases rule: check_loop_Cons)
    case (abort e)
    then show ?thesis by (simp add: only_ids_refl)
  next
    case (continue x st1)
    have c: "price_cache st1 = price_cache st"
      by (rule check_signal_cache [OF continue(1)])
    from only_ids_trans [OF check_signal_only_ids [OF continue(1)] Cons.IH [OF continue(2)]]
    show ?thesis by (simp add: c priced_ids_Cons [of _ sg sigs])
  qed
qed

lemma update_prices_keep:
  "get_current_price ex smb \<le> 0 \<Longrightarrow> update_prices ex symbols cache smb = cache smb"
proof (induction symbols arbitrary: cache)
  case Nil
  then show ?case by simp
next
  case (Cons s symbols)
  from Cons.IH [OF Cons.prems] Cons.prems show ?case
    by (cases "s = smb") (simp_all add: Let_def)
qed

lemma refresh_keep:
  "get_current_price ex smb \<le> 0 \<Longrightarrow> price_cache (refresh ex st) smb = price_cache st smb"
  by (simp add: refresh_def update_prices_keep)

lemma cycle_cache_keep:
  assumes "check_all_signals cfg ex st = (r, st')" "get_current_price ex smb \<le> 0"
  shows "price_cache st' smb = price_cache st smb"
  using cycle_advance(6) [OF assms(1)] refresh_keep [OF assms(2), of st] by auto

lemma cycle_only_ids:
  assumes "check_all_signals cfg ex st = (r, st')"
  shows "only_ids (priced_ids (price_cache st') (get_open_trades (db st))) (db st) (db st')"
proof (cases "get_open_trades (db st) = []")
  case True
  with assms show ?thesis by (simp add: check_all_signals_eq only_ids_refl)
next
  case False
  with assms have cl: "check_loop cfg (get_open_trades (db st)) (refresh ex st) [] = (r, st')"
    by (simp add: check_all_signals_eq)
  from check_loop_advance [OF cl] have "price_cache st' = price_cache (refresh ex st)"
    by (simp add: advance_def)
  with check_loop_only_ids [OF cl] show ?thesis by simp
qed

lemma distinct_ids_eq:
  assumes "distinct (map t_id tb)" "t \<in> set tb" "u \<in> set tb" "t_id t = t_id u"
  shows "t = u"
  using assms by (auto simp: distinct_map dest: inj_onD)

lemma no_quote_refresh: "refresh no_quote st = st"
proof -
  have "update_prices no_quote symbols cache = cache" for symbols cache
    by (induction symbols arbitrary: cache)
       (simp_all add: get_current_price_def no_quote_def Let_def)
  then show ?thesis by (simp add: refresh_def)
qed

lemma scenario_e:
  "check_all_signals ex_cfg no_quote (init_tracker [pos_a, pos_n])
     = (Inr [], init_tracker [pos_a, pos_n])"
proof -
  have o: "get_open_trades (db (init_tracker [pos_a, pos_n])) = [pos_a, pos_n]"
    by (simp add: init_tracker_def get_open_trades_def pos_a_sel pos_n_sel)
  have s: "check_signal ex_cfg (init_tracker [pos_a, pos_n]) sg
             = (Inr None, init_tracker [pos_a, pos_n])" for sg
    by (rule check_signal_skip) (simp add: init_tracker_def)
  show ?thesis
    unfolding check_all_signals_eq o no_quote_refresh by (simp add: s)
qed

lemma tp_db_idle: "tp_events cfg tb sg cp = [] \<Longrightarrow> tp_db cfg tb sg cp = tb"
  by (simp add: tp_events_def tp_db_def Let_def split: if_splits)

lemma check_signal_Inr:
  assumes "check_signal cfg st sg = (Inr x, st1)"
  shows "st1 = st \<lparr> db := position_db cfg (price_cache st) (db st) sg,
                    notified := notified st @ position_events cfg (price_cache st) (db st) sg \<rparr>"
    and "x = (case position_events cfg (price_cache st) (db st) sg of [] \<Rightarrow> None | r # _ \<Rightarrow> Some r)"
proof -
  let ?pe = "position_events cfg (price_cache st) (db st) sg"
  let ?pd = "position_db cfg (price_cache st) (db st) sg"
  have "st1 = st \<lparr> db := ?pd, notified := notified st @ ?pe \<rparr>
      \<and> x = (case ?pe of [] \<Rightarrow> None | r # _ \<Rightarrow> Some r)"
  proof (cases "price_cache st (t_symbol sg)")
    case None
    then have "check_signal cfg st sg = (Inr None, st)" by (simp add: check_signal_skip)
    with assms None show ?thesis by (simp add: position_events_def position_db_def)
  next
    case (Some cp)
    show ?thesis
    proof (cases "cp = 0")
      case True
      with Some have "check_signal cfg st sg = (Inr None, st)" by (simp add: check_signal_skip)
      with assms Some True show ?thesis by (simp add: position_events_def position_db_def)
    next
      case nz: False
      show ?thesis
      proof (cases "stop_reached sg cp")
        case sr: True
        show ?thesis
        proof (cases "weighted cfg sg = 0")
          case True
          from check_signal_stop_zero [OF Some nz sr True] assms show ?thesis by simp
        next
          case False
          from check_signal_stop [OF Some nz sr False] assms Some nz sr
          show ?thesis by (simp add: position_events_def position_db_def)
        qed
      next
        case sr: False
        show ?thesis
        proof (cases "weighted cfg sg = 0")
          case True
          from check_signal_tp_zero [OF Some nz sr True] assms
          have e: "tp_events cfg (db st) sg cp = []" and s: "st1 = st" and x: "x = None"
            by (auto split: if_splits)
          from e s x Some nz sr tp_db_idle [OF e] show ?thesis
            by (simp add: position_events_def position_db_def)
        next
          case False
          from check_signal_tp [OF Some nz sr False] assms Some nz sr
          show ?thesis by (simp add: position_events_def position_db_def)
        qed
      qed
    qed
  qed
  then show "st1 = st \<lparr> db := ?pd, notified := notified st @ ?pe \<rparr>"
    and "x = (case ?pe of [] \<Rightarrow> None | r # _ \<Rightarrow> Some r)" by simp_all
qed

lemma position_events_signal:
  "e \<in> set (position_events cfg cache tb sg) \<Longrightarrow> ev_signal e = sg"
  by (auto simp: position_events_def tp_events_mem split: option.splits if_splits)

lemma is_tp_hit_position_db_other:
  "j \<noteq> t_id sg \<Longrightarrow> is_tp_hit (position_db cfg cache tb sg) j k = is_tp_hit tb j k"
  by (simp add: position_db_def is_tp_hit_tp_db split: option.splits)

lemma position_events_other:
  assumes "\<And>k. is_tp_hit tb' (t_id sg) k = is_tp_hit tb (t_id sg) k"
  shows "position_events cfg cache tb' sg = position_events cfg cache tb sg"
  using assms by (simp add: position_events_def tp_events_def fires_def split: option.splits)

lemma tp_events_ex_type:
  "(\<exists>e \<in> set (tp_events cfg tb sg cp). t_id (ev_signal e) = j \<and> ev_type e = ty) \<longleftrightarrow>
     t_id sg = j
     \<and> ((ty = TP1 \<and> fires tb sg cp TP1) \<or> (ty = TP2 \<and> fires tb sg cp TP2)
         \<or> (ty = TP3_FULL \<and> fires tb sg cp TP3_FULL))"
  by (auto simp: tp_events_def)

lemma tp_events_ex_close:
  "(\<exists>e \<in> set (tp_events cfg tb sg cp).
       t_id (ev_signal e) = j \<and> ev_type e \<in> {STOP_LOSS, TP3_FULL}) \<longleftrightarrow>
     t_id sg = j \<and> fires tb sg cp TP3_FULL"
  by (auto simp: tp_events_def)

lemma flag_done_position_db:
  assumes "t_id sg \<in> t_id ` set tb"
  shows "flag_done (position_db cfg cache tb sg) j ty \<longleftrightarrow>
           flag_done tb j ty
           \<or> (ty \<noteq> STOP_LOSS
              \<and> (\<exists>e \<in> set (position_events cfg cache tb sg).
                    t_id (ev_signal e) = j \<and> ev_type e = ty))"
proof (cases "cache (t_symbol sg)")
  case None
  then show ?thesis by (simp add: position_db_def position_events_def)
next
  case (Some cp)
  show ?thesis
  proof (cases "cp = 0 \<or> stop_reached sg cp")
    case True
    with Some show ?thesis
      by (cases ty) (auto simp: position_db_def position_events_def flag_done_def)
  next
    case False
    with Some have d: "position_db cfg cache tb sg = tp_db cfg tb sg cp"
      and e: "position_events cfg cache tb sg = tp_events cfg tb sg cp"
      by (simp_all add: position_db_def position_events_def)
    from assms have i: "t_id sg \<in> set (map t_id tb)" by simp
    show ?thesis unfolding d e using i
      by (cases ty) (auto simp: flag_done_def is_tp_hit_tp_db tp_events_ex_type)
  qed
qed

lemma all_closed_position_db:
  "all_closed (position_db cfg cache tb sg) j \<longleftrightarrow>
     all_closed tb j
     \<or> (\<exists>e \<in> set (position_events cfg cache tb sg).
           t_id (ev_signal e) = j \<and> ev_type e \<in> {STOP_LOSS, TP3_FULL})"
proof (cases "cache (t_symbol sg)")
  case None
  then show ?thesis by (simp add: position_db_def position_events_def)
next
  case (Some cp)
  show ?thesis
  proof (cases "cp = 0 \<or> stop_reached sg cp")
    case True
    with Some show ?thesis
      by (auto simp: position_db_def position_events_def all_closed_close_trade)
  next
    case False
    with Some have d: "position_db cfg cache tb sg = tp_db cfg tb sg cp"
      and e: "position_events cfg cache tb sg = tp_events cfg tb sg cp"
      by (simp_all add: position_db_def position_events_def)
    show ?thesis unfolding d e tp_events_ex_close all_closed_tp_db
      by auto
  qed
qed

lemma check_loop_exact:
  assumes "check_loop cfg sigs st rs0 = (Inr rs', st')" "distinct (map t_id sigs)"
    "t_id ` set sigs \<subseteq> t_id ` set (db st)"
  shows "emitted st st' = concat (map (position_events cfg (price_cache st) (db st)) sigs)
       \<and> notified st' = notified st @ emitted st st'
       \<and> rs' = rs0 @ concat (map (\<lambda>sg. take 1 (position_events cfg (price_cache st) (db st) sg)) sigs)
       \<and> (\<forall>j ty. flag_done (db st') j ty \<longleftrightarrow>
              flag_done (db st) j ty
              \<or> (ty \<noteq> STOP_LOSS
                 \<and> (\<exists>e \<in> set (emitted st st'). t_id (ev_signal e) = j \<and> ev_type e = ty)))
       \<and> (\<forall>j. all_closed (db st') j \<longleftrightarrow>
              all_closed (db st) j
              \<or> (\<exists>e \<in> set (emitted st st').
                    t_id (ev_signal e) = j \<and> ev_type e \<in> {STOP_LOSS, TP3_FULL}))"
  using assms
proof (induction sigs arbitrary: st rs0)
  case Nil
  then show ?case by simp
next
  case (Cons sg sigs)
  from Cons.prems(1) show ?case
  proof (cases rule: check_loop_Cons)
    case (abort e)
    then show ?thesis by simp
  next
    case (continue x st1)
    let ?c = "price_cache st"
    let ?pe = "position_events cfg ?c (db st) sg"
    note s1 = check_signal_Inr [OF continue(1)]
    have em1: "emitted st st1 = ?pe" by (subst s1(1)) simp
    have db1: "db st1 = position_db cfg ?c (db st) sg" by (subst s1(1)) simp
    have c1: "price_cache st1 = ?c" by (rule check_signal_cache [OF continue(1)])
    have n1: "notified st1 = notified st @ emitted st st1"
      by (rule check_signal_notified [OF continue(1)])
    have ids1: "t_id ` set (db st1) = t_id ` set (db st)"
      using check_signal_ids [OF continue(1)] by (metis list.set_map)
    from Cons.prems(2) have d: "distinct (map t_id sigs)" and nin: "t_id sg \<notin> t_id ` set sigs"
      by simp_all
    from Cons.prems(3) have sub: "t_id ` set sigs \<subseteq> t_id ` set (db st1)"
      and own: "t_id sg \<in> t_id ` set (db st)"
      by (simp_all add: ids1)
    note ih = Cons.IH [OF continue(2) d sub]
    have same: "position_events cfg ?c (db st1) s = position_events cfg ?c (db st) s"
      if "s \<in> set sigs" for s
    proof (rule position_events_other)
      fix k
      from that nin have "t_id s \<noteq> t_id sg" by (metis imageI)
      then show "is_tp_hit (db st1) (t_id s) k = is_tp_hit (db st) (t_id s) k"
        unfolding db1 by (rule is_tp_hit_position_db_other)
    qed
    from ih have n2: "notified st' = notified st1 @ emitted st1 st'" by simp
    note tr = emitted_trans [OF n1 n2]
    have e: "emitted st st' = concat (map (position_events cfg ?c (db st)) (sg # sigs))"
      unfolding tr(1) em1 using ih same by (simp add: c1 cong: map_cong)
    have x: "(case x of None \<Rightarrow> [] | Some y \<Rightarrow> [y]) = take 1 ?pe"
      unfolding s1(2) by (cases ?pe) simp_all
    have r: "rs' = rs0 @ concat (map (\<lambda>sg. take 1 (position_events cfg ?c (db st) sg)) (sg # sigs))"
      using ih same by (simp add: c1 x cong: map_cong)
    have f: "flag_done (db st') j ty \<longleftrightarrow>
              flag_done (db st) j ty
              \<or> (ty \<noteq> STOP_LOSS
                 \<and> (\<exists>e \<in> set (emitted st st'). t_id (ev_signal e) = j \<and> ev_type e = ty))" for j ty
    proof -
      from ih have "flag_done (db st') j ty \<longleftrightarrow>
              flag_done (db st1) j ty
              \<or> (ty \<noteq> STOP_LOSS
                 \<and> (\<exists>e \<in> set (emitted st1 st'). t_id (ev_signal e) = j \<and> ev_type e = ty))"
        by blast
      then show ?thesis
        unfolding db1 flag_done_position_db [OF own] tr(1) em1 by auto
    qed
    have a: "all_closed (db st') j \<longleftrightarrow>
              all_closed (db st) j
              \<or> (\<exists>e \<in> set (emitted st st').
                    t_id (ev_signal e) = j \<and> ev_type e \<in> {STOP_LOSS, TP3_FULL})" for j
    proof -
      from ih have "all_closed (db st') j \<longleftrightarrow>
              all_closed (db st1) j
              \<or> (\<exists>e \<in> set (emitted st1 st').
                    t_id (ev_signal e) = j \<and> ev_type e \<in> {STOP_LOSS, TP3_FULL})"
        by blast
      then show ?thesis
        unfolding db1 all_closed_position_db tr(1) em1 by auto
    qed
    from e tr(2) r f a show ?thesis by blast
  qed
qed

lemma cycle_exact:
  assumes c: "check_all_signals cfg ex st = (Inr rs, st')"
    and d: "distinct (map t_id (db st))"
  shows "emitted st st'
           = concat (map (position_events cfg (price_cache st') (db st)) (get_open_trades (db st)))"
    and "rs = concat (map (\<lambda>sg. take 1 (position_events cfg (price_cache st') (db st) sg))
                       (get_open_trades (db st)))"
    and "\<forall>j ty. flag_done (db st') j ty \<longleftrightarrow>
              flag_done (db st) j ty
              \<or> (ty \<noteq> STOP_LOSS
                 \<and> (\<exists>e \<in> set (emitted st st'). t_id (ev_signal e) = j \<and> ev_type e = ty))"
    and "\<forall>j. all_closed (db st') j \<longleftrightarrow>
              all_closed (db st) j
              \<or> (\<exists>e \<in> set (emitted st st').
                    t_id (ev_signal e) = j \<and> ev_type e \<in> {STOP_LOSS, TP3_FULL})"
proof -
  let ?act = "get_open_trades (db st)"
  have "emitted st st' = concat (map (position_events cfg (price_cache st') (db st)) ?act)
      \<and> rs = concat (map (\<lambda>sg. take 1 (position_events cfg (price_cache st') (db st) sg)) ?act)
      \<and> (\<forall>j ty. flag_done (db st') j ty \<longleftrightarrow>
              flag_done (db st) j ty
              \<or> (ty \<noteq> STOP_LOSS
                 \<and> (\<exists>e \<in> set (emitted st st'). t_id (ev_signal e) = j \<and> ev_type e = ty)))
      \<and> (\<forall>j. all_closed (db st') j \<longleftrightarrow>
              all_closed (db st) j
              \<or> (\<exists>e \<in> set (emitted st st').
                    t_id (ev_signal e) = j \<and> ev_type e \<in> {STOP_LOSS, TP3_FULL}))"
  proof (cases "?act = []")
    case True
    with c have "rs = []" "st' = st" by (simp_all add: check_all_signals_eq)
    with True show ?thesis by simp
  next
    case False
    with c have cl: "check_loop cfg ?act (refresh ex st) [] = (Inr rs, st')"
      by (simp add: check_all_signals_eq)
    have da: "distinct (map t_id ?act)"
      using d by (simp add: get_open_trades_def distinct_map_filter)
    have sub: "t_id ` set ?act \<subseteq> t_id ` set (db (refresh ex st))"
      by (auto simp: get_open_trades_def)
    have pc: "price_cache st' = price_cache (refresh ex st)"
      using check_loop_advance [OF cl] by (simp add: advance_def)
    from check_loop_exact [OF cl da sub] show ?thesis
      by (simp add: pc)
  qed
  then show "emitted st st'
           = concat (map (position_events cfg (price_cache st') (db st)) (get_open_trades (db st)))"
    and "rs = concat (map (\<lambda>sg. take 1 (position_events cfg (price_cache st') (db st) sg))
                       (get_open_trades (db st)))"
    and "\<forall>j ty. flag_done (db st') j ty \<longleftrightarrow>
              flag_done (db st) j ty
              \<or> (ty \<noteq> STOP_LOSS
                 \<and> (\<exists>e \<in> set (emitted st st'). t_id (ev_signal e) = j \<and> ev_type e = ty))"
    and "\<forall>j. all_closed (db st') j \<longleftrightarrow>
              all_closed (db st) j
              \<or> (\<exists>e \<in> set (emitted st st').
                    t_id (ev_signal e) = j \<and> ev_type e \<in> {STOP_LOSS, TP3_FULL})"
    by blast+
qed

lemma pos_a_position_events_121:
  "position_events ex_cfg [''BTCUSDT'' \<mapsto> 121] [pos_a] pos_a = [ev_1, ev_2, ev_3]"
  by (simp add: position_events_def pos_a_sel stop_reached_def pos_a_tp_events_121)

section \<open>The claims\<close>




text \<open>
  C7: once the indicators, the score and the prediction are available, \<open>generate\<close>
  returns no signal exactly when the frame has fewer than 10 rows or a gate fails: the
  combined confidence is below \<open>MIN_CONFIDENCE\<close>, the trend strength is below \<open>MIN_ADX\<close>,
  or the directions disagree (direction 1 with \<open>net_score \<le> 0\<close>, direction \<open>-1\<close> with
  \<open>net_score \<ge> 0\<close>).  The combined confidence is the mean of the two confidences as
  the program computes it: the rounded sum, halved and rounded; the statement holds for
  every rounding.
\<close>

theorem generate_gates:
  fixes st :: strength and p :: prediction
  assumes "ai df0 = Some df" "get_signal_strength_fl fl df = Inr st"
    "predict sk ml df = (Inr p, ml')"
  shows "fst (generate_fl fl cfg ai sk ml df0 smb) = None \<longleftrightarrow>
           length df < 10
           \<or> fl (fl (ta_confidence st + ml_confidence p) / 2) < MIN_CONFIDENCE cfg
           \<or> trend_strength st < MIN_ADX cfg
           \<or> (direction p = 1 \<and> net_score st \<le> 0)
           \<or> (direction p = - 1 \<and> net_score st \<ge> 0)"
proof (cases "length df < 10")
  case True
  with assms(1) show ?thesis by (simp add: generate_fl_def)
next
  case False
  then have len: "10 \<le> length df" by simp
  have ts: "trend_strength st = adx (last df)"
    by (rule get_signal_strength_fl_trend [OF assms(2)])
  show ?thesis
    unfolding generate_fl_eq [where ai = ai, OF assms(1) len assms(2) assms(3)] ts
    using False by auto
qed

theorem generate_gates_witness:
  "get_signal_strength_fl milli weak_frame = Inr (ex_strength \<lparr> trend_strength := 15 \<rparr>)
   \<and> predict ex_sklearn ex_ml weak_frame = (Inr \<lparr> direction = 1, ml_confidence = 0.8 \<rparr>, ex_ml)
   \<and> trend_strength (ex_strength \<lparr> trend_strength := 15 \<rparr>) < MIN_ADX ex_cfg
   \<and> fst (generate_fl milli ex_cfg Some ex_sklearn ex_ml weak_frame ''BTCUSDT'') = None"
proof -
  have pr: "predict ex_sklearn ex_ml weak_frame
              = (Inr \<lparr> direction = 1, ml_confidence = 0.8 \<rparr>, ex_ml)"
    by (rule ex_predict_eval) (rule weak_frame_shape)
  have lt: "trend_strength (ex_strength \<lparr> trend_strength := 15 \<rparr>) < MIN_ADX ex_cfg"
    by (simp add: ex_cfg_sel)
  from generate_gates [where ai = Some, OF refl weak_strength_fl_eval pr, of ex_cfg "''BTCUSDT''"] lt
  have "fst (generate_fl milli ex_cfg Some ex_sklearn ex_ml weak_frame ''BTCUSDT'') = None"
    by blast
  with weak_strength_fl_eval pr lt show ?thesis by blast
qed





text \<open>
  C3 (as stated): the returned list holds one event for each transition of the cycle.
  A LONG position with levels 105, 110 and 120 and no flag set is checked at price 121:
  the cycle marks all three levels, closes the position and notifies three events, and
  returns only the TP1 event.
\<close>

theorem returned_events_counterexample:
  "fst (check_all_signals ex_cfg (quote 121) (init_tracker [pos_a])) = Inr [ev_1]
   \<and> notified (snd (check_all_signals ex_cfg (quote 121) (init_tracker [pos_a])))
       = [ev_1, ev_2, ev_3]
   \<and> ev_type ev_1 = TP1 \<and> ev_type ev_2 = TP2 \<and> ev_type ev_3 = TP3_FULL
   \<and> map tp2_hit (db (snd (check_all_signals ex_cfg (quote 121) (init_tracker [pos_a])))) = [True]
   \<and> map tp3_hit (db (snd (check_all_signals ex_cfg (quote 121) (init_tracker [pos_a])))) = [True]
   \<and> map t_status (db (snd (check_all_signals ex_cfg (quote 121) (init_tracker [pos_a]))))
       = [CLOSED]"
  by (simp add: scenario_three) (simp add: st_3_def ev_1_def ev_2_def ev_3_def)

text \<open>
  C3 (amended): in a check cycle that returns, on a table with distinct ids, the open
  positions are handled in the order of the table, each against the cached price of its
  symbol and the flags it had when the cycle began.  A position with no cached price, or
  a cached price of 0, gives no event.  A position whose stop is reached gives one
  STOP_LOSS event.  Any other position gives one event for every take-profit level that
  is reached and not yet marked, in the order TP1, TP2, TP3_FULL.  The events notified
  in the cycle are exactly these, position after position.  A level is marked after the
  cycle exactly when it was marked before or its event was notified in the cycle, and a
  position is closed after the cycle exactly when it was closed before or a STOP_LOSS or
  TP3_FULL event of it was notified.  The returned list holds, for every position with
  at least one event, the first of its events only: a position that crosses several
  take-profit levels in one cycle contributes one returned event, the lowest level newly
  marked, while every level marked is notified.
\<close>

theorem returned_first_events:
  assumes "check_all_signals cfg ex st = (Inr rs, st')"
    and "distinct (map t_id (db st))"
  shows "notified st' = notified st
           @ concat (map (position_events cfg (price_cache st') (db st))
                       (get_open_trades (db st)))
       \<and> rs = concat (map (\<lambda>sg. take 1 (position_events cfg (price_cache st') (db st) sg))
                          (get_open_trades (db st)))
       \<and> (\<forall>j ty. flag_done (db st') j ty \<longleftrightarrow>
              flag_done (db st) j ty
              \<or> (ty \<noteq> STOP_LOSS
                 \<and> (\<exists>e \<in> set (emitted st st'). t_id (ev_signal e) = j \<and> ev_type e = ty)))
       \<and> (\<forall>j. all_closed (db st') j \<longleftrightarrow>
              all_closed (db st) j
              \<or> (\<exists>e \<in> set (emitted st st').
                    t_id (ev_signal e) = j \<and> ev_type e \<in> {STOP_LOSS, TP3_FULL}))"
proof -
  note x = cycle_exact [OF assms]
  from cycle_advance(1) [OF assms(1)] x(1)
  have "notified st' = notified st
           @ concat (map (position_events cfg (price_cache st') (db st))
                       (get_open_trades (db st)))"
    by simp
  with x(2) x(3) x(4) show ?thesis by blast
qed

theorem returned_first_events_witness:
  "check_all_signals ex_cfg (quote 121) (init_tracker [pos_a]) = (Inr [ev_1], st_3)
   \<and> distinct (map t_id (db (init_tracker [pos_a])))
   \<and> get_open_trades (db (init_tracker [pos_a])) = [pos_a]
   \<and> position_events ex_cfg (price_cache st_3) (db (init_tracker [pos_a])) pos_a
       = [ev_1, ev_2, ev_3]
   \<and> notified st_3 = notified (init_tracker [pos_a]) @ [ev_1, ev_2, ev_3]
   \<and> [ev_1] = take 1 [ev_1, ev_2, ev_3]
   \<and> flag_done (db st_3) 1 TP1 \<and> flag_done (db st_3) 1 TP2 \<and> flag_done (db st_3) 1 TP3_FULL
   \<and> all_closed (db st_3) 1"
proof -
  have d: "distinct (map t_id (db (init_tracker [pos_a])))"
    by (simp add: init_tracker_def)
  have p: "position_events ex_cfg (price_cache st_3) (db (init_tracker [pos_a])) pos_a
             = [ev_1, ev_2, ev_3]"
    by (simp add: st_3_def init_tracker_def pos_a_position_events_121)
  have n: "notified st_3 = notified (init_tracker [pos_a]) @ [ev_1, ev_2, ev_3]"
    by (simp add: st_3_def init_tracker_def)
  have e: "emitted (init_tracker [pos_a]) st_3 = [ev_1, ev_2, ev_3]"
    by (simp add: emitted_def st_3_def init_tracker_def)
  have t: "t_id (ev_signal ev_1) = 1" "ev_type ev_1 = TP1"
    "t_id (ev_signal ev_2) = 1" "ev_type ev_2 = TP2"
    "t_id (ev_signal ev_3) = 1" "ev_type ev_3 = TP3_FULL"
    by (simp_all add: ev_1_def ev_2_def ev_3_def pos_a_sel)
  note r = returned_first_events [OF scenario_three d]
  from r have f: "flag_done (db st_3) 1 ty" if "ty \<noteq> STOP_LOSS" "ty \<in> {TP1, TP2, TP3_FULL}" for ty
    using that e t by auto
  from r have a: "all_closed (db st_3) 1" using e t by auto
  from f [of TP1] f [of TP2] f [of TP3_FULL] a scenario_three d init_open p n
  show ?thesis by simp
qed

text \<open>
  C4: once every row of a position id is CLOSED, it stays CLOSED through any sequence
  of check cycles and newly opened trades, no event for it is notified any more, and no
  later check cycle returns an event for it, whatever the prices.
\<close>

theorem closed_position_silent:
  assumes "i \<in> t_id ` set (db st)" "all_closed (db st) i"
  shows "all_closed (db (run cfg st as)) i
       \<and> filter (\<lambda>e. t_id (ev_signal e) = i) (notified (run cfg st as))
           = filter (\<lambda>e. t_id (ev_signal e) = i) (notified st)
       \<and> (\<forall>ex rs. fst (check_all_signals cfg ex (run cfg st as)) = Inr rs
             \<longrightarrow> (\<forall>e \<in> set rs. t_id (ev_signal e) \<noteq> i))"
proof -
  note r = run_closed [OF assms, of cfg as]
  have "\<forall>e \<in> set rs. t_id (ev_signal e) \<noteq> i"
    if a: "fst (check_all_signals cfg ex (run cfg st as)) = Inr rs" for ex rs
  proof -
    obtain st' where c: "check_all_signals cfg ex (run cfg st as) = (Inr rs, st')"
      using a by (cases "check_all_signals cfg ex (run cfg st as)") auto
    from r have cl: "all_closed (db (run cfg st as)) i" by simp
    from cycle_results_subset [OF c] cycle_closed_silent [OF c cl] show ?thesis by blast
  qed
  with r show ?thesis by blast
qed

theorem closed_position_silent_witness:
  "snd (check_all_signals ex_cfg (quote 94) st_a) = st_b
   \<and> 1 \<in> t_id ` set (db st_b) \<and> all_closed (db st_b) 1
   \<and> all_closed (db (run ex_cfg st_b [Check (quote 121)])) 1
   \<and> filter (\<lambda>e. t_id (ev_signal e) = 1) (notified (run ex_cfg st_b [Check (quote 121)]))
       = [ev_a, ev_b]"
proof -
  have h1: "1 \<in> t_id ` set (db st_b)" by (simp add: st_b_def pos_a1_sel)
  have h2: "all_closed (db st_b) 1" by (simp add: st_b_def)
  have f: "filter (\<lambda>e. t_id (ev_signal e) = 1) (notified st_b) = [ev_a, ev_b]"
    by (simp add: st_b_def ev_a_def ev_b_def pos_a_sel pos_a1_sel)
  from closed_position_silent [OF h1 h2, of ex_cfg "[Check (quote 121)]"] h1 h2 f
  show ?thesis by (simp add: scenario_b)
qed

text \<open>
  C5: over any sequence of check cycles and newly opened trades, starting from a table
  with distinct ids and nothing notified, at most one event of each type is notified for
  each position; and a hit-flag that is set stays set.  In particular a second cycle on
  the state left by the first, with the same prices, repeats no event.
\<close>

theorem at_most_one_event:
  assumes "distinct (map t_id tb)"
  shows "length (filter (\<lambda>e. t_id (ev_signal e) = i \<and> ev_type e = ty)
                   (notified (run cfg (init_tracker tb) as))) \<le> 1
       \<and> (is_tp_hit (db st) j k \<longrightarrow> is_tp_hit (db (run cfg st as')) j k)"
proof -
  from run_once [OF init_once [OF assms], of i ty cfg as]
  have "cnt i ty (notified (run cfg (init_tracker tb) as)) \<le> Suc 0"
    by (simp add: once_def)
  then show ?thesis using run_hit_mono [of st j k cfg as'] by (simp add: cnt_def)
qed

theorem at_most_one_event_witness:
  "distinct (map t_id [pos_a])
   \<and> notified (run ex_cfg (init_tracker [pos_a]) [Check (quote 105), Check (quote 105)]) = [ev_a]
   \<and> length (filter (\<lambda>e. t_id (ev_signal e) = 1 \<and> ev_type e = TP1)
               (notified (run ex_cfg (init_tracker [pos_a])
                            [Check (quote 105), Check (quote 105)]))) \<le> 1
   \<and> is_tp_hit (db st_a) 1 1
   \<and> is_tp_hit (db (run ex_cfg st_a [Check (quote 105)])) 1 1"
proof -
  have d: "distinct (map t_id [pos_a])" by simp
  have r2: "run ex_cfg st_a [Check (quote 105)] = st_a"
    using run_Cons_check [OF scenario_a_again, of "[]"] by simp
  have r: "run ex_cfg (init_tracker [pos_a]) [Check (quote 105), Check (quote 105)] = st_a"
    using run_Cons_check [OF scenario_a, of "[Check (quote 105)]"] r2 by simp
  have n: "notified st_a = [ev_a]" by (simp add: st_a_def)
  have h: "is_tp_hit (db st_a) 1 1" by (simp add: st_a_alt pos_a1_hits)
  from at_most_one_event [OF d, of 1 TP1 ex_cfg "[Check (quote 105), Check (quote 105)]"
      st_a 1 1 "[Check (quote 105)]"] h d
  show ?thesis by (simp add: r r2 n del: run.simps)
qed

text \<open>
  C6: the weighted entry is \<open>entry_a\<close> without a second entry and
  \<open>entry_a * POSITION_SIZE_A + entry_b * POSITION_SIZE_B\<close> with one; and every event
  notified over any sequence of check cycles and newly opened trades carries the pnl
  \<open>(exit - w) / w * 100\<close> for LONG and \<open>(w - exit) / w * 100\<close> for SHORT, where \<open>w\<close> is
  the weighted entry of the event's position and \<open>exit\<close> the level of the event's type
  (stop, tp1, tp2 or tp3).
\<close>

theorem pnl_formula:
  "calculate_weighted_entry cfg ea None = ea
   \<and> calculate_weighted_entry cfg ea (Some eb)
       = ea * POSITION_SIZE_A cfg + eb * POSITION_SIZE_B cfg
   \<and> (\<forall>e \<in> set (notified (run cfg (init_tracker tb) as)).
         calculate_weighted_entry cfg (t_entry_a (ev_signal e)) (t_entry_b (ev_signal e)) \<noteq> 0
         \<and> ev_pnl e =
             (if t_side (ev_signal e) = LONG
              then (exit_level (ev_type e) (ev_signal e)
                      - calculate_weighted_entry cfg (t_entry_a (ev_signal e))
                          (t_entry_b (ev_signal e)))
                   / calculate_weighted_entry cfg (t_entry_a (ev_signal e))
                       (t_entry_b (ev_signal e)) * 100
              else (calculate_weighted_entry cfg (t_entry_a (ev_signal e))
                      (t_entry_b (ev_signal e))
                      - exit_level (ev_type e) (ev_signal e))
                   / calculate_weighted_entry cfg (t_entry_a (ev_signal e))
                       (t_entry_b (ev_signal e)) * 100))"
proof -
  from run_priced [OF init_priced, of cfg tb as]
  have "\<forall>e \<in> set (notified (run cfg (init_tracker tb) as)). pnl_ok cfg e"
    by (simp add: priced_def)
  then show ?thesis
    by (simp add: calculate_weighted_entry_def pnl_ok_def Let_def)
qed

theorem pnl_formula_witness:
  "POSITION_SIZE_A ex_cfg + POSITION_SIZE_B ex_cfg = 1
   \<and> calculate_weighted_entry ex_cfg 100 (Some 98) = 99.4
   \<and> notified (run ex_cfg (init_tracker [pos_a]) [Check (quote 105)]) = [ev_a]
   \<and> ev_type ev_a = TP1 \<and> t_side (ev_signal ev_a) = LONG
   \<and> exit_level (ev_type ev_a) (ev_signal ev_a) = 105
   \<and> calculate_weighted_entry ex_cfg (t_entry_a (ev_signal ev_a)) (t_entry_b (ev_signal ev_a))
       = 99.4
   \<and> ev_pnl ev_a = (105 - 99.4) / 99.4 * 100"
proof -
  have r: "run ex_cfg (init_tracker [pos_a]) [Check (quote 105)] = st_a"
    using run_Cons_check [OF scenario_a, of "[]"] by simp
  have n: "notified st_a = [ev_a]" by (simp add: st_a_def)
  have v: "ev_type ev_a = TP1" "ev_signal ev_a = pos_a" "ev_pnl ev_a = (105 - 99.4) / 99.4 * 100"
    by (simp_all add: ev_a_def)
  have w: "calculate_weighted_entry ex_cfg 100 (Some 98) = 99.4"
    by (simp add: calculate_weighted_entry_def ex_cfg_sel)
  from pnl_formula [of ex_cfg 100 98 "[pos_a]" "[Check (quote 105)]"] w
  show ?thesis
    by (simp add: r n v pos_a_sel exit_level_def ex_cfg_sel del: run.simps)
qed

text \<open>
  C10: a failed price request is reported as the price 0; starting from a new tracker,
  every price in the cache is strictly positive and so is the trigger price of every
  notified event, over any sequence of check cycles and newly opened trades; and a
  position whose cached price is absent or 0 is skipped, with no event and no change of
  state.
\<close>

theorem trigger_price_positive:
  "(ex smb = None \<longrightarrow> get_current_price ex smb = 0)
   \<and> (\<forall>s p. price_cache (run cfg (init_tracker tb) as) s = Some p \<longrightarrow> 0 < p)
   \<and> (\<forall>e \<in> set (notified (run cfg (init_tracker tb) as)). 0 < hit_price e)
   \<and> (price_cache st (t_symbol sg) = None \<or> price_cache st (t_symbol sg) = Some 0
        \<longrightarrow> check_signal cfg st sg = (Inr None, st))"
proof -
  from run_priced [OF init_priced, of cfg tb as]
  have "(\<forall>s p. price_cache (run cfg (init_tracker tb) as) s = Some p \<longrightarrow> 0 < p)
      \<and> (\<forall>e \<in> set (notified (run cfg (init_tracker tb) as)). 0 < hit_price e)"
    by (simp add: priced_def cache_pos_def)
  moreover have "ex smb = None \<longrightarrow> get_current_price ex smb = 0"
    by (simp add: get_current_price_def)
  ultimately show ?thesis using check_signal_skip [of st sg cfg] by blast
qed

theorem trigger_price_positive_witness:
  "no_quote ''BTCUSDT'' = None \<and> get_current_price no_quote ''BTCUSDT'' = 0
   \<and> price_cache (run ex_cfg (init_tracker [pos_a]) [Check (quote 105)]) ''BTCUSDT'' = Some 105
   \<and> notified (run ex_cfg (init_tracker [pos_a]) [Check (quote 105)]) = [ev_a]
   \<and> 0 < hit_price ev_a
   \<and> price_cache zero_st (t_symbol pos_a) = Some 0 \<and> t_side pos_a = LONG \<and> 0 \<le> t_stop pos_a
   \<and> check_signal ex_cfg zero_st pos_a = (Inr None, zero_st)"
proof -
  have r: "run ex_cfg (init_tracker [pos_a]) [Check (quote 105)] = st_a"
    using run_Cons_check [OF scenario_a, of "[]"] by simp
  have n: "notified st_a = [ev_a]" "price_cache st_a ''BTCUSDT'' = Some 105"
    by (simp_all add: st_a_def)
  have z: "price_cache zero_st (t_symbol pos_a) = Some 0"
    by (simp add: zero_st_def pos_a_sel)
  have q: "no_quote ''BTCUSDT'' = None" by (simp add: no_quote_def)
  from trigger_price_positive [of no_quote "''BTCUSDT''" ex_cfg "[pos_a]" "[Check (quote 105)]"
      zero_st pos_a] z q
  show ?thesis
    by (simp add: r n pos_a_sel del: run.simps)
qed

text \<open>
  C2 (as stated): a symbol whose price request fails in a cycle produces no event and no
  change in that cycle, the cache being rebuilt in every cycle.  The tracker's cache is
  created once, filled on success and never emptied.  One position is checked at price
  100; a second position on the same symbol is then opened with its stop at 101; in the
  next cycle the price request fails, the cached 100 is read, and the new position is
  stopped out and closed at that price.
\<close>

theorem stale_price_stop:
  "run ex_cfg (init_tracker [pos_a]) [Check (quote 100), Open sig_new] = st_d
   \<and> no_quote ''BTCUSDT'' = None \<and> get_current_price no_quote ''BTCUSDT'' = 0
   \<and> check_all_signals ex_cfg no_quote st_d = (Inr [ev_stale], st_e)
   \<and> ev_type ev_stale = STOP_LOSS \<and> hit_price ev_stale = 100
   \<and> t_symbol (ev_signal ev_stale) = ''BTCUSDT''
   \<and> map t_status (db st_d) = [OPEN, OPEN] \<and> map t_status (db st_e) = [OPEN, CLOSED]"
  by (simp add: stale_run stale_cycle del: run.simps)
     (simp add: no_quote_def get_current_price_def ev_stale_def st_d_def st_e_def pos_a_sel
        pos_n_sel)

text \<open>
  C2 (amended): in a check cycle in which the price request for a symbol fails or gives
  a non-positive price, the cache entry of that symbol is left as it was before the
  cycle (the cache is kept across cycles, not rebuilt).  If the symbol had no cache
  entry, no event on that symbol is notified or returned in the cycle, and, ids being
  distinct, every row on that symbol is left unchanged.
\<close>

theorem failed_fetch_skips:
  assumes c: "check_all_signals cfg ex st = (r, st')"
    and f: "get_current_price ex smb \<le> 0"
  shows "price_cache st' smb = price_cache st smb
       \<and> (price_cache st smb = None \<longrightarrow>
            filter (\<lambda>e. t_symbol (ev_signal e) = smb) (notified st')
              = filter (\<lambda>e. t_symbol (ev_signal e) = smb) (notified st)
            \<and> (\<forall>rs. r = Inr rs \<longrightarrow> (\<forall>e \<in> set rs. t_symbol (ev_signal e) \<noteq> smb))
            \<and> (distinct (map t_id (db st)) \<longrightarrow>
                 list_all2 (\<lambda>t t'. t_symbol t = smb \<longrightarrow> t' = t) (db st) (db st')))"
proof (intro conjI impI)
  show keep: "price_cache st' smb = price_cache st smb"
    by (rule cycle_cache_keep [OF c f])
  assume none: "price_cache st smb = None"
  with keep have none': "price_cache st' smb = None" by simp
  note adv = cycle_advance [OF c]
  have quiet: "\<forall>e \<in> set (emitted st st'). t_symbol (ev_signal e) \<noteq> smb"
    using adv(5) none' by (auto simp: stamped_def)
  then have "filter (\<lambda>e. t_symbol (ev_signal e) = smb) (emitted st st') = []"
    by (simp add: filter_empty_conv)
  then show "filter (\<lambda>e. t_symbol (ev_signal e) = smb) (notified st')
              = filter (\<lambda>e. t_symbol (ev_signal e) = smb) (notified st)"
    by (simp add: adv(1))
  show "\<forall>rs. r = Inr rs \<longrightarrow> (\<forall>e \<in> set rs. t_symbol (ev_signal e) \<noteq> smb)"
  proof (intro allI impI)
    fix rs assume "r = Inr rs"
    with c have "check_all_signals cfg ex st = (Inr rs, st')" by simp
    from cycle_results_subset [OF this] quiet
    show "\<forall>e \<in> set rs. t_symbol (ev_signal e) \<noteq> smb" by blast
  qed
  assume d: "distinct (map t_id (db st))"
  let ?I = "priced_ids (price_cache st') (get_open_trades (db st))"
  from cycle_only_ids [OF c]
  have "list_all2 (\<lambda>t t'. t_id t' = t_id t \<and> t_symbol t' = t_symbol t \<and> (t_id t \<notin> ?I \<longrightarrow> t' = t))
          (db st) (db st')"
    by (simp add: only_ids_def)
  then show "list_all2 (\<lambda>t t'. t_symbol t = smb \<longrightarrow> t' = t) (db st) (db st')"
  proof (rule list.rel_mono_strong)
    fix t t'
    assume t: "t \<in> set (db st)"
      and p: "t_id t' = t_id t \<and> t_symbol t' = t_symbol t \<and> (t_id t \<notin> ?I \<longrightarrow> t' = t)"
    show "t_symbol t = smb \<longrightarrow> t' = t"
    proof
      assume sy: "t_symbol t = smb"
      have "t_id t \<notin> ?I"
      proof
        assume "t_id t \<in> ?I"
        then obtain sg where sg: "sg \<in> set (get_open_trades (db st))" "t_id sg = t_id t"
          "price_cache st' (t_symbol sg) \<noteq> None"
          by (auto simp: priced_ids_def)
        from sg(1) have "sg \<in> set (db st)" by (simp add: get_open_trades_def)
        from distinct_ids_eq [OF d this t sg(2)] sg(3) sy none' show False by simp
      qed
      with p show "t' = t" by simp
    qed
  qed
qed

theorem failed_fetch_skips_witness:
  "check_all_signals ex_cfg no_quote (init_tracker [pos_a, pos_n])
     = (Inr [], init_tracker [pos_a, pos_n])
   \<and> get_current_price no_quote ''BTCUSDT'' \<le> 0
   \<and> price_cache (init_tracker [pos_a, pos_n]) ''BTCUSDT'' = None
   \<and> t_symbol pos_a = ''BTCUSDT'' \<and> t_symbol pos_n = ''BTCUSDT''
   \<and> distinct (map t_id (db (init_tracker [pos_a, pos_n])))
   \<and> list_all2 (\<lambda>t t'. t_symbol t = ''BTCUSDT'' \<longrightarrow> t' = t)
        (db (init_tracker [pos_a, pos_n])) (db (init_tracker [pos_a, pos_n]))"
proof -
  have f: "get_current_price no_quote ''BTCUSDT'' \<le> 0"
    by (simp add: get_current_price_def no_quote_def)
  have n: "price_cache (init_tracker [pos_a, pos_n]) ''BTCUSDT'' = None"
    by (simp add: init_tracker_def)
  have d: "distinct (map t_id (db (init_tracker [pos_a, pos_n])))"
    by (simp add: init_tracker_def pos_a_sel pos_n_sel)
  from failed_fetch_skips [OF scenario_e f] n d scenario_e f
  show ?thesis by (simp add: pos_a_sel pos_n_sel)
qed

end
